theory Spec2Isabelle
  imports Complex_Main
begin

section \<open>QuadTree.py: the spatial index of height samples\<close>

text \<open>
  Floats are modelled as \<^typ>\<open>real\<close>, Python integers as \<^typ>\<open>int\<close>. A node is the class
  \<open>QuadTree.Node\<close>: its bounding box, its capacity, the bucket of points and the children
  (\<open>None\<close> or the list \<open>[nw, ne, sw, se]\<close>).
\<close>

type_synonym point = "real \<times> real \<times> real"

datatype Node = Node (xmin: real) (xmax: real) (ymin: real) (ymax: real)
  (capacity: int) (points: "point list") (children: "Node list option")

definition contains :: "Node \<Rightarrow> real \<Rightarrow> real \<Rightarrow> bool" where
  "contains n x y = ((xmin n \<le> x \<and> x \<le> xmax n) \<and> (ymin n \<le> y \<and> y \<le> ymax n))"

definition child_key :: "real \<Rightarrow> real \<Rightarrow> Node \<Rightarrow> real" where
  "child_key x y ch = (max (max (xmin ch - x) 0) (x - xmax ch))\<^sup>2 + (max (max (ymin ch - y) 0) (y - ymax ch))\<^sup>2"

text \<open>
  \<open>Node.nearest\<close>: \<open>best\<close> is \<open>None\<close> or a pair of a squared distance and a point. The loop
  over the bucket is \<open>scan_point\<close>; the children are visited in the order of \<open>sorted\<close>,
  which is stable, as \<open>sort_key\<close> is.
\<close>

fun scan_point :: "real \<Rightarrow> real \<Rightarrow> point \<Rightarrow> (real \<times> point) option \<Rightarrow> (real \<times> point) option" where
  "scan_point x y (px, py, pz) best =
     (let ddx = px - x; ddy = py - y; d2 = ddx * ddx + ddy * ddy in
      case best of None \<Rightarrow> Some (d2, (px, py, pz))
      | Some (bd, bp) \<Rightarrow> if d2 < bd then Some (d2, (px, py, pz)) else best)"

fun nearest_node :: "Node \<Rightarrow> real \<Rightarrow> real \<Rightarrow> (real \<times> point) option \<Rightarrow> (real \<times> point) option" where
  "nearest_node (Node x0 x1 y0 y1 cap pts chs) x y best =
     (let dx = (if x < x0 then x0 - x else if x > x1 then x - x1 else 0);
          dy = (if y < y0 then y0 - y else if y > y1 then y - y1 else 0);
          min_dist_sq = dx * dx + dy * dy
      in if (case best of None \<Rightarrow> False | Some (bd, bp) \<Rightarrow> min_dist_sq \<ge> bd) then best
         else let best1 = fold (scan_point x y) pts best in
           (case chs of None \<Rightarrow> best1
            | Some cs \<Rightarrow> fold (\<lambda>ch b. nearest_node ch x y b) (sort_key (child_key x y) cs) best1))"

text \<open>
  \<open>Node.insert\<close> mutates the node and calls itself on the children. The first argument of
  \<open>insert_node\<close> is the depth of the interpreter stack that is left: at depth 0 the call
  raises \<open>RecursionError\<close> (only the frames of \<open>insert\<close> are counted, not those of
  \<open>contains\<close> and \<open>subdivide\<close>). The result is the returned truth value, or \<open>None\<close> for that
  exception, together with the node as the call leaves it. \<open>insert_children\<close> is the loop
  \<open>for ch in self.children: if ch.insert(...)\<close>, \<open>move_points\<close> the loop that moves the
  bucket into the new children (its flag is false when a call raised), and \<open>insert_tail\<close>
  the last part of the method, which offers the new point to the children and keeps it in
  the node when none takes it.
\<close>

fun insert_children :: "(Node \<Rightarrow> bool option \<times> Node) \<Rightarrow> Node list \<Rightarrow> bool option \<times> Node list" where
  "insert_children ins [] = (Some False, [])"
| "insert_children ins (ch # chs) =
     (case ins ch of
        (None, ch') \<Rightarrow> (None, ch' # chs)
      | (Some True, ch') \<Rightarrow> (Some True, ch' # chs)
      | (Some False, ch') \<Rightarrow> (case insert_children ins chs of (r, chs') \<Rightarrow> (r, ch' # chs')))"

fun move_points :: "(point \<Rightarrow> Node \<Rightarrow> bool option \<times> Node) \<Rightarrow> point list \<Rightarrow> point list \<Rightarrow> Node list
    \<Rightarrow> bool \<times> point list \<times> Node list" where
  "move_points ins [] kept chs = (True, kept, chs)"
| "move_points ins (p # ps) kept chs =
     (case insert_children (ins p) chs of
        (None, chs') \<Rightarrow> (False, kept, chs')
      | (Some True, chs') \<Rightarrow> move_points ins ps kept chs'
      | (Some False, chs') \<Rightarrow> move_points ins ps (kept @ [p]) chs')"

definition subdivide :: "Node \<Rightarrow> Node list" where
  "subdivide n =
     (let mx = 0.5 * (xmin n + xmax n); my = 0.5 * (ymin n + ymax n) in
      [Node (xmin n) mx my (ymax n) (capacity n) [] None,
       Node mx (xmax n) my (ymax n) (capacity n) [] None,
       Node (xmin n) mx (ymin n) my (capacity n) [] None,
       Node mx (xmax n) (ymin n) my (capacity n) [] None])"

definition with_contents :: "Node \<Rightarrow> point list \<Rightarrow> Node list option \<Rightarrow> Node" where
  "with_contents n pts chs = Node (xmin n) (xmax n) (ymin n) (ymax n) (capacity n) pts chs"

definition insert_tail :: "(Node \<Rightarrow> bool option \<times> Node) \<Rightarrow> Node \<Rightarrow> point list \<Rightarrow> Node list \<Rightarrow> point
    \<Rightarrow> bool option \<times> Node" where
  "insert_tail ins n pts chs p =
     (case insert_children ins chs of
        (None, chs') \<Rightarrow> (None, with_contents n pts (Some chs'))
      | (Some True, chs') \<Rightarrow> (Some True, with_contents n pts (Some chs'))
      | (Some False, chs') \<Rightarrow> (Some True, with_contents n (pts @ [p]) (Some chs')))"

fun insert_node :: "nat \<Rightarrow> Node \<Rightarrow> point \<Rightarrow> bool option \<times> Node" where
  "insert_node 0 n p = (None, n)"
| "insert_node (Suc k) n p =
     (if \<not> contains n (fst p) (fst (snd p)) then (Some False, n)
      else case children n of
        None \<Rightarrow>
          if int (length (points n)) < capacity n
          then (Some True, with_contents n (points n @ [p]) None)
          else (case move_points (\<lambda>q ch. insert_node k ch q) (points n) [] (subdivide n) of
                  (False, kept, chs) \<Rightarrow> (None, with_contents n kept (Some chs))
                | (True, kept, chs) \<Rightarrow> insert_tail (\<lambda>ch. insert_node k ch p) n kept chs p)
      | Some chs \<Rightarrow> insert_tail (\<lambda>ch. insert_node k ch p) n (points n) chs p)"

record QuadTree =
  root :: Node

definition QuadTree_init :: "real \<Rightarrow> real \<Rightarrow> real \<Rightarrow> real \<Rightarrow> int \<Rightarrow> QuadTree" where
  "QuadTree_init x0 x1 y0 y1 cap =
     (let x1' = (if x1 \<le> x0 then x0 + 1.0 else x1);
          y1' = (if y1 \<le> y0 then y0 + 1.0 else y1)
      in \<lparr>root = Node x0 x1' y0 y1' cap [] None\<rparr>)"

definition QuadTree_insert :: "nat \<Rightarrow> QuadTree \<Rightarrow> point \<Rightarrow> bool option \<times> QuadTree" where
  "QuadTree_insert fuel qt p = (case insert_node fuel (root qt) p of (r, n') \<Rightarrow> (r, \<lparr>root = n'\<rparr>))"

definition QuadTree_nearest :: "QuadTree \<Rightarrow> real \<Rightarrow> real \<Rightarrow> (real \<times> real \<times> real \<times> real) option" where
  "QuadTree_nearest qt x y =
     (case nearest_node (root qt) x y None of
        None \<Rightarrow> None
      | Some (d2, (px, py, pz)) \<Rightarrow> Some (px, py, pz, sqrt d2))"

text \<open>
  A run of \<open>insert\<close> calls on a tree: the tree after the last call and the samples whose
  call returned \<open>True\<close>, or \<open>None\<close> when a call raised.
\<close>

fun insert_list :: "nat \<Rightarrow> QuadTree \<Rightarrow> point list \<Rightarrow> (QuadTree \<times> point list) option" where
  "insert_list fuel qt [] = Some (qt, [])"
| "insert_list fuel qt (p # ps) =
     (case QuadTree_insert fuel qt p of
        (None, qt') \<Rightarrow> None
      | (Some b, qt') \<Rightarrow>
          (case insert_list fuel qt' ps of
             None \<Rightarrow> None
           | Some (qt'', acc) \<Rightarrow> Some (qt'', if b then p # acc else acc)))"

section \<open>ZFaceSection.py: intersecting the tool with the faces\<close>

text \<open>
  Exceptions are values: a function that can raise returns a sum whose left summand is the
  exception. \<open>PartOCCError\<close> stands for whatever the geometry kernel raises.
\<close>

datatype exn = PartOCCError | ValueError | RecursionError | AttributeError

text \<open>
  What the code reads of the shape returned by \<open>cyl.section\<close>: its validity, the six
  coordinates of its bounding box after tessellation, its length and the number of its
  edges. The coordinates are floats, so that the tests \<open>zmax is None\<close> of the source never
  succeed; they have no branch here.
\<close>

record shape =
  isValid :: bool
  isNull :: bool
  XMin :: real
  XMax :: real
  YMin :: real
  YMax :: real
  ZMin :: real
  ZMax :: real
  Length :: real
  Edges :: nat

text \<open>The keyword arguments of \<open>try_intersect_z\<close>, with their defaults in \<open>default_run\<close>.\<close>

record run_params =
  radius :: real
  tool_height :: real
  rotate_x :: "real option"
  rotate_y :: "real option"
  rotate_z :: "real option"
  use_approximation :: bool
  use_compound :: bool
  use_poly_cylinder :: bool
  rule_out_short_length :: bool

type_synonym face = nat

text \<open>
  The intersection primitive is a parameter: building the tool at \<open>(x, y)\<close> for the given
  arguments, sectioning it with the compound of the faces (\<open>None\<close>) or with one face, and
  tessellating the result; it returns the shape or raises.
\<close>

type_synonym primitive = "real \<Rightarrow> real \<Rightarrow> run_params \<Rightarrow> face option \<Rightarrow> exn + shape"

definition is_valid_section :: "shape \<Rightarrow> real \<Rightarrow> bool" where
  "is_valid_section sec r =
     (if \<not> isValid sec then False
      else if isNull sec then False
      else if \<exists>v \<in> set [XMin sec, XMax sec, YMin sec, YMax sec, ZMin sec, ZMax sec].
                \<bar>v\<bar> > 1000000 then False
      else True)"

definition is_full_length :: "shape \<Rightarrow> real \<Rightarrow> bool" where
  "is_full_length sec r =
     (let min_len = 2 * 3.14159 * r * 0.98 in
      if Length sec < min_len then False else True)"

definition is_empty_section :: "shape \<Rightarrow> bool" where
  "is_empty_section sec = (if Edges sec = 0 then False else True)"

text \<open>
  The loop over the faces of the per-face branch. Note that \<open>is_empty_section\<close> is false
  for a section without edges, so that the sections kept are those without edges.
\<close>

fun collect_sections :: "primitive \<Rightarrow> face list \<Rightarrow> real \<Rightarrow> real \<Rightarrow> run_params \<Rightarrow> shape list \<Rightarrow> exn + shape list" where
  "collect_sections prim [] x y rp sections = Inr sections"
| "collect_sections prim (f # fs) x y rp sections =
     (case prim x y rp (Some f) of
        Inl e \<Rightarrow> Inl e
      | Inr sec \<Rightarrow>
          if \<not> is_valid_section sec (radius rp) then collect_sections prim fs x y rp sections
          else if \<not> is_empty_section sec then collect_sections prim fs x y rp (sections @ [sec])
          else collect_sections prim fs x y rp sections)"

text \<open>Python's \<open>max\<close> of a list, which raises \<open>ValueError\<close> on the empty list.\<close>

fun py_max :: "real list \<Rightarrow> exn + real" where
  "py_max [] = Inl ValueError"
| "py_max (v # vs) = Inr (fold max vs v)"

definition try_intersect_z :: "primitive \<Rightarrow> face list \<Rightarrow> real \<Rightarrow> real \<Rightarrow> run_params \<Rightarrow> exn + (bool \<times> real option)" where
  "try_intersect_z prim faces x y rp =
     (if use_compound rp then
        (case prim x y rp None of
           Inl e \<Rightarrow> Inl e
         | Inr sec \<Rightarrow>
             (let zmax = ZMax sec in
              if \<not> is_valid_section sec (radius rp) then Inr (False, None)
              else if rule_out_short_length rp \<and> \<not> is_full_length sec (radius rp) then Inr (False, Some zmax)
              else Inr (True, Some zmax)))
      else
        (case collect_sections prim faces x y rp [] of
           Inl e \<Rightarrow> Inl e
         | Inr sections \<Rightarrow>
             if length sections = 0 then Inr (False, None)
             else
               (let min_len = 2 * 3.14159 * radius rp * 0.98;
                    len = sum_list (map Length sections)
                in case py_max (map ZMax sections) of
                     Inl e \<Rightarrow> Inl e
                   | Inr zmax \<Rightarrow>
                       if rule_out_short_length rp \<and> len < min_len then Inr (False, Some zmax)
                       else Inr (True, Some zmax))))"

definition default_run :: "real \<Rightarrow> real \<Rightarrow> run_params" where
  "default_run r h =
     \<lparr>radius = r, tool_height = h, rotate_x = None, rotate_y = None, rotate_z = None,
      use_approximation = False, use_compound = True, use_poly_cylinder = False,
      rule_out_short_length = True\<rparr>"

definition runs :: "real \<Rightarrow> run_params list" where
  "runs tool_radius =
     (let tool_height = 1000; d = default_run tool_radius tool_height in
      [d\<lparr>use_approximation := False, rule_out_short_length := True\<rparr>,
       d\<lparr>rotate_z := Some 180, use_approximation := False, rule_out_short_length := True\<rparr>,
       d\<lparr>rotate_z := Some 45, use_approximation := False, rule_out_short_length := True\<rparr>,
       d\<lparr>use_approximation := True, rule_out_short_length := False\<rparr>,
       d\<lparr>rotate_z := Some 180, use_approximation := True, rule_out_short_length := False\<rparr>,
       d\<lparr>use_compound := False, rule_out_short_length := False\<rparr>,
       d\<lparr>use_poly_cylinder := True, rule_out_short_length := False\<rparr>,
       d\<lparr>use_poly_cylinder := True, use_compound := False, rule_out_short_length := False\<rparr>])"

text \<open>The loop over \<open>runs\<close> of \<open>intersect_z\<close>, with the list \<open>zmaxs\<close>.\<close>

fun intersect_loop :: "primitive \<Rightarrow> face list \<Rightarrow> real \<Rightarrow> real \<Rightarrow> run_params list \<Rightarrow> real list \<Rightarrow> exn + real option" where
  "intersect_loop prim faces x y [] zmaxs = Inr None"
| "intersect_loop prim faces x y (rp # rest) zmaxs =
     (case try_intersect_z prim faces x y rp of
        Inl e \<Rightarrow> Inl e
      | Inr (success, z) \<Rightarrow>
          (let zmaxs' = (case z of None \<Rightarrow> zmaxs | Some v \<Rightarrow> zmaxs @ [v]) in
           if success then (case py_max zmaxs' of Inl e \<Rightarrow> Inl e | Inr m \<Rightarrow> Inr (Some m))
           else intersect_loop prim faces x y rest zmaxs'))"

definition intersect_z :: "primitive \<Rightarrow> face list \<Rightarrow> real \<Rightarrow> real \<Rightarrow> real \<Rightarrow> exn + real option" where
  "intersect_z prim faces tool_radius x y = intersect_loop prim faces x y (runs tool_radius) []"

section \<open>ZFace.py: commands, classification and discretisation\<close>

text \<open>
  A \<open>Path.Command\<close> has a name and a dictionary of parameters; the attribute \<open>cmd.x\<close>
  (or \<open>cmd.X\<close>) of the host library is the value of the parameter \<open>X\<close>, or \<open>None\<close> when the
  command does not carry it. A \<open>FreeCAD.Vector\<close> is a triple.
\<close>

record Command =
  Name :: string
  Parameters :: "string \<rightharpoonup> real"

definition cmd_x :: "Command \<Rightarrow> real option" where
  "cmd_x cmd = Parameters cmd ''X''"

definition cmd_y :: "Command \<Rightarrow> real option" where
  "cmd_y cmd = Parameters cmd ''Y''"

definition cmd_z :: "Command \<Rightarrow> real option" where
  "cmd_z cmd = Parameters cmd ''Z''"

text \<open>
  From the host module \<open>Path.Geom\<close>: the lists of move names, the default tolerance and
  \<open>isRoughly(float1, float2, error=Tolerance)\<close>, which is \<open>fabs(float1 - float2) <= error\<close>.
\<close>

definition CmdMoveRapid :: "string list" where
  "CmdMoveRapid = [''G0'', ''G00'']"

definition CmdMoveStraight :: "string list" where
  "CmdMoveStraight = [''G1'', ''G01'']"

definition CmdMoveArc :: "string list" where
  "CmdMoveArc = [''G2'', ''G02'', ''G3'', ''G03'']"

definition Tolerance :: real where
  "Tolerance = 1 / 1000000"

definition isRoughlyWithin :: "real \<Rightarrow> real \<Rightarrow> real \<Rightarrow> bool" where
  "isRoughlyWithin float1 float2 error = (\<bar>float1 - float2\<bar> \<le> error)"

definition isRoughly :: "real \<Rightarrow> real \<Rightarrow> bool" where
  "isRoughly float1 float2 = isRoughlyWithin float1 float2 Tolerance"

datatype SegmentKind = IS_ON_PLANE | IS_HIGH | OTHER

record TaggedSegment =
  kind :: SegmentKind
  command :: Command
  pointlist :: "point list"

text \<open>
  \<open>'Z' in cmd.Parameters and cmd.Z\<close>: the second conjunct is the truth value of a float,
  which is false for \<open>0.0\<close>.
\<close>

definition is_on_plane :: "Command \<Rightarrow> point \<Rightarrow> bool" where
  "is_on_plane cmd prev_location =
     (case Parameters cmd ''Z'' of
        Some z \<Rightarrow> if z \<noteq> 0 then isRoughly z 0.0 else isRoughly (snd (snd prev_location)) 0.0
      | None \<Rightarrow> isRoughly (snd (snd prev_location)) 0.0)"

definition is_motion :: "Command \<Rightarrow> bool" where
  "is_motion cmd = (Name cmd \<in> set (CmdMoveStraight @ CmdMoveArc @ CmdMoveRapid))"

text \<open>
  The geometry kernel is a parameter: \<open>edgeForCmd\<close> builds the edge of a move from the
  tracked position (\<open>None\<close> when there is none), \<open>discretize\<close> samples an edge by deflection or
  by distance.
\<close>

datatype sampling = Deflection real | Distance real

definition update_location :: "point \<Rightarrow> Command \<Rightarrow> point" where
  "update_location temp_location c =
     (case_option (fst temp_location) id (Parameters c ''X''),
      case_option (fst (snd temp_location)) id (Parameters c ''Y''),
      case_option (snd (snd temp_location)) id (Parameters c ''Z''))"

fun discretize_commands ::
  "(Command \<Rightarrow> point \<Rightarrow> 'e option) \<Rightarrow> ('e \<Rightarrow> sampling \<Rightarrow> point list) \<Rightarrow>
   Command list \<Rightarrow> point \<Rightarrow> real \<Rightarrow> real \<Rightarrow> real \<Rightarrow> real \<Rightarrow> TaggedSegment list" where
  "discretize_commands edgeForCmd discretize [] temp_location safe_height clearance_height sampleD curveD = []"
| "discretize_commands edgeForCmd discretize (c # commands) temp_location safe_height clearance_height sampleD curveD =
     (let knd = (if \<not> is_motion c then OTHER
                 else if is_on_plane c temp_location then IS_ON_PLANE
                 else IS_HIGH);
          segments =
            (if is_motion c then
               (case edgeForCmd c temp_location of
                  None \<Rightarrow> []
                | Some edge \<Rightarrow>
                    [\<lparr>kind = knd, command = c,
                      pointlist = (if Name c \<in> set CmdMoveArc then discretize edge (Deflection curveD)
                                   else discretize edge (Distance sampleD))\<rparr>])
             else [\<lparr>kind = knd, command = c, pointlist = []\<rparr>])
      in segments @ discretize_commands edgeForCmd discretize commands (update_location temp_location c)
                      safe_height clearance_height sampleD curveD)"

section \<open>ZFace.py: the object, its cache and the surface-height query\<close>

text \<open>
  \<open>obj.BasePath\<close>: whether it is derived from \<open>Path::Feature\<close>, and the commands of its
  \<open>Path\<close> attribute (\<open>None\<close> when the attribute is missing).
\<close>

record base_feature =
  isPathFeature :: bool
  PathCommands :: "Command list option"

text \<open>
  The properties of the document object that \<open>opExecute\<close> reads, together with what the host
  computes for it: the faces collected from the links, the state hash of the geometry, the
  bounding box of the compound (\<open>None\<close> when reading it raises), the section primitive, the
  geometry kernel, \<open>PathUtils.getPathWithPlacement\<close>, and the depth of the interpreter stack
  left for \<open>Node.insert\<close>.
\<close>

record 'e zobj =
  ShapeID :: string
  ToolDiameter :: real
  HorizFeed :: real
  VertFeed :: real
  HorizRapid :: real
  VertRapid :: real
  SafeHeight :: real
  ClearanceHeight :: real
  OpStockZMax :: real
  StepDown :: real
  StartDepth :: real
  CacheGrid :: real
  SegInterpolate :: real
  ArcInterpolate :: real
  BlockCacheInvalidation :: bool
  BasePath :: "base_feature option"
  collected_faces :: "face list"
  state_hash :: string
  compound_bounds :: "(real \<times> real \<times> real \<times> real) option"
  section_primitive :: primitive
  edgeForCmd :: "Command \<Rightarrow> point \<Rightarrow> 'e option"
  discretize :: "'e \<Rightarrow> sampling \<Rightarrow> point list"
  getPathWithPlacement :: "base_feature option \<Rightarrow> exn + Command list"
  recursion_limit :: nat

text \<open>
  What \<open>opExecute\<close> and the query mutate: \<open>obj.PointCache\<close> (a dictionary whose key
  \<open>points\<close> may be absent, or some other object), \<open>self._runtime_quadtree\<close>,
  \<open>obj._CacheStateHash\<close>, \<open>obj.Path\<close> and \<open>self.commandlist\<close>.
\<close>

datatype cache = NotADict | Dict "point list option"

record zface =
  PointCache :: cache
  runtime_quadtree :: "QuadTree option"
  CacheStateHash :: string
  Path :: "Command list"
  commandlist :: "Command list"

definition clear_cache :: "'e zobj \<Rightarrow> zface \<Rightarrow> zface" where
  "clear_cache obj st =
     (if \<not> BlockCacheInvalidation obj then st\<lparr>PointCache := Dict None, runtime_quadtree := None\<rparr>
      else st)"

text \<open>
  \<open>_insert_cache_point\<close> appends to the persistent list first and inserts into the tree
  after; it returns the exception it raised, if any, and the state it left behind.
\<close>

definition insert_cache_point :: "nat \<Rightarrow> zface \<Rightarrow> real \<Rightarrow> real \<Rightarrow> real \<Rightarrow> exn option \<times> zface" where
  "insert_cache_point fuel st x y z =
     (case PointCache st of
        NotADict \<Rightarrow> (Some AttributeError, st)
      | Dict entry \<Rightarrow>
          (let pts = (case entry of None \<Rightarrow> [] | Some l \<Rightarrow> l);
               st1 = st\<lparr>PointCache := Dict (Some (pts @ [(x, y, z)]))\<rparr>
           in case runtime_quadtree st1 of
                None \<Rightarrow> (Some AttributeError, st1)
              | Some qt \<Rightarrow>
                  (case QuadTree_insert fuel qt (x, y, z) of
                     (None, qt') \<Rightarrow> (Some RecursionError, st1\<lparr>runtime_quadtree := Some qt'\<rparr>)
                   | (Some inserted, qt') \<Rightarrow>
                       if \<not> inserted then (Some ValueError, st1\<lparr>runtime_quadtree := Some qt'\<rparr>)
                       else (None, st1\<lparr>runtime_quadtree := Some qt'\<rparr>))))"

text \<open>The handler of \<open>get_surface_z\<close>: persist the point even if the insertion failed.\<close>

definition persist_anyway :: "zface \<Rightarrow> real \<Rightarrow> real \<Rightarrow> real \<Rightarrow> zface" where
  "persist_anyway st x y z =
     (let entry = (case PointCache st of NotADict \<Rightarrow> Some [] | Dict e \<Rightarrow> e);
          pts = (case entry of None \<Rightarrow> [] | Some l \<Rightarrow> l)
      in st\<lparr>PointCache := Dict (Some (pts @ [(x, y, z)]))\<rparr>)"

definition get_surface_z :: "'e zobj \<Rightarrow> zface \<Rightarrow> real \<Rightarrow> real \<Rightarrow> exn + (real option \<times> zface)" where
  "get_surface_z obj st x y =
     (let tol = CacheGrid obj in
      case runtime_quadtree st of
        None \<Rightarrow> Inl AttributeError
      | Some qt \<Rightarrow>
          (let nearest = QuadTree_nearest qt x y;
               hit = (case nearest of
                        None \<Rightarrow> None
                      | Some (px, py, pz, d) \<Rightarrow> if d \<le> tol then Some pz else None)
           in case hit of
                Some pz \<Rightarrow> Inr (Some pz, st)
              | None \<Rightarrow>
                  (case intersect_z (section_primitive obj) (collected_faces obj) (ToolDiameter obj / 2) x y of
                     Inl e \<Rightarrow> Inl e
                   | Inr None \<Rightarrow> Inr (None, st)
                   | Inr (Some z_val) \<Rightarrow>
                       (case insert_cache_point (recursion_limit obj) st x y z_val of
                          (None, st') \<Rightarrow> Inr (Some z_val, st')
                        | (Some e, st') \<Rightarrow> Inr (Some z_val, persist_anyway st' x y z_val)))))"

section \<open>ZFace.py: feed rates and the stepdown passes\<close>

fun getPoint_from :: "Command list \<Rightarrow> real option \<Rightarrow> real option \<Rightarrow> real option \<Rightarrow> point option" where
  "getPoint_from [] x y z = None"
| "getPoint_from (cmd # commands) x y z =
     (let x' = (if x = None \<and> cmd_x cmd \<noteq> None then cmd_x cmd else x);
          y' = (if y = None \<and> cmd_y cmd \<noteq> None then cmd_y cmd else y);
          z' = (if z = None \<and> cmd_z cmd \<noteq> None then cmd_z cmd else z)
      in case (x', y', z') of
           (Some vx, Some vy, Some vz) \<Rightarrow> Some (vx, vy, vz)
         | _ \<Rightarrow> getPoint_from commands x' y' z')"

definition getPoint :: "Command list \<Rightarrow> point option" where
  "getPoint commands = getPoint_from commands None None None"

definition isClosedPath :: "point option \<Rightarrow> point option \<Rightarrow> bool" where
  "isClosedPath point1 point2 =
     (case (point1, point2) of
        (Some (x1, y1, z1), Some (x2, y2, z2)) \<Rightarrow>
          if \<not> isRoughly x1 x2 then False
          else if \<not> isRoughly y1 y2 then False
          else True
      | _ \<Rightarrow> False)"

definition isLower :: "real option \<Rightarrow> real option \<Rightarrow> bool" where
  "isLower z1 z2 =
     (case (z1, z2) of
        (Some a, Some b) \<Rightarrow> if isRoughly a b then False else if a < b then True else False
      | _ \<Rightarrow> False)"

text \<open>
  \<open>interpolate_feedrate\<close> with \<open>test_feeds=True\<close> returns the feed and its horizontal and
  vertical components; with \<open>test_feeds=False\<close> the feed alone.
\<close>

definition feed_components :: "point \<Rightarrow> point \<Rightarrow> real \<Rightarrow> real \<Rightarrow> real \<times> real \<times> real" where
  "feed_components p0 p1 horiz_feed vert_feed =
     (let dx = fst p1 - fst p0;
          dy = fst (snd p1) - fst (snd p0);
          dz = snd (snd p1) - snd (snd p0);
          dist_xy = sqrt (dx * dx + dy * dy);
          dst = sqrt (dx * dx + dy * dy + dz * dz);
          F = (if \<not> isRoughly dst 0.0 then
                 (if isRoughly dist_xy 0.0 then
                    (if dz > 0 then horiz_feed else vert_feed)
                  else if isRoughly dz 0.0 then horiz_feed
                  else
                    (let Fh = horiz_feed * dst / dist_xy in
                     if dz > 0 then Fh
                     else (let Fv = vert_feed * dst / \<bar>dz\<bar> in min Fh Fv)))
               else vert_feed);
          h_comp = (if dst > 0 then F * dist_xy / dst else 0.0);
          v_comp = (if dst > 0 then F * \<bar>dz\<bar> / dst else 0.0)
      in (F, h_comp, v_comp))"

definition interpolate_feedrate :: "point \<Rightarrow> point \<Rightarrow> real \<Rightarrow> real \<Rightarrow> real" where
  "interpolate_feedrate p0 p1 horiz_feed vert_feed = fst (feed_components p0 p1 horiz_feed vert_feed)"

text \<open>The parameters of \<open>process_stepdown\<close> that stay fixed during the passes.\<close>

record stepdown_args =
  step_depth :: real
  start_depth :: real
  clearance_height :: real
  safe_height :: real
  h_feed :: real
  v_feed :: real
  h_rapid :: real
  v_rapid :: real
  rapid_through_cleared :: bool

definition rapid_margin :: real where
  "rapid_margin = 0.5"

definition G0 :: "(string \<times> real) list \<Rightarrow> Command" where
  "G0 params = \<lparr>Name = ''G0'', Parameters = map_of params\<rparr>"

definition G1 :: "(string \<times> real) list \<Rightarrow> Command" where
  "G1 params = \<lparr>Name = ''G1'', Parameters = map_of params\<rparr>"

text \<open>
  The body of \<open>for cmd in path.Commands\<close> in one pass: the position, the flag \<open>repeat\<close>
  and the commands emitted so far are threaded through.
\<close>

fun pass_commands ::
  "stepdown_args \<Rightarrow> real \<Rightarrow> bool \<Rightarrow> point \<Rightarrow> Command list \<Rightarrow>
   real \<times> real \<times> real \<Rightarrow> bool \<Rightarrow> Command list \<Rightarrow> bool \<times> Command list" where
  "pass_commands a limit_depth skipZ prevPoint [] cur rpt out = (rpt, out)"
| "pass_commands a limit_depth skipZ prevPoint (cmd # rest) (current_x, current_y, current_z) rpt out =
     (if skipZ \<and> cmd_x cmd = None \<and> cmd_y cmd = None \<and>
         (cmd_z cmd = Some (clearance_height a) \<or> cmd_z cmd = Some (safe_height a))
      then pass_commands a limit_depth skipZ prevPoint rest (current_x, current_y, current_z) rpt out
      else
        (let cx = (case cmd_x cmd of Some v \<Rightarrow> v | None \<Rightarrow> current_x);
             cy = (case cmd_y cmd of Some v \<Rightarrow> v | None \<Rightarrow> current_y);
             (rpt1, cz1) =
               (case cmd_z cmd of
                  Some v \<Rightarrow> if isLower (cmd_z cmd) (Some limit_depth) then (True, limit_depth) else (rpt, v)
                | None \<Rightarrow> (rpt, current_z));
             (rpt2, cz2) = (if isLower (cmd_z cmd) (Some limit_depth) then (True, limit_depth) else (rpt1, cz1));
             (cz3, thisFeed) =
               (if rapid_through_cleared a \<and>
                   \<not> isLower (Some cz2) (Some (limit_depth + step_depth a + rapid_margin))
                then (cz2 + rapid_margin, h_rapid a)
                else (cz2, interpolate_feedrate prevPoint (cx, cy, cz2) (h_feed a) (v_feed a)))
         in pass_commands a limit_depth skipZ prevPoint rest (cx, cy, cz3) rpt2
              (out @ [G1 [(''X'', cx), (''Y'', cy), (''Z'', cz3), (''F'', thisFeed)]])))"

text \<open>One iteration of \<open>while repeat\<close>, for the start point already known.\<close>

definition stepdown_pass ::
  "stepdown_args \<Rightarrow> Command list \<Rightarrow> point \<Rightarrow> point option \<Rightarrow> real \<Rightarrow> bool \<Rightarrow> bool \<times> Command list" where
  "stepdown_pass a path startPoint endPoint limit_depth firstStep =
     (let skipZ = (\<not> firstStep \<and> isClosedPath (Some startPoint) endPoint);
          safety = (if \<not> skipZ
                    then [G0 [(''Z'', snd (snd startPoint))],
                          G0 [(''X'', fst startPoint), (''Y'', fst (snd startPoint))]]
                    else [])
      in pass_commands a limit_depth skipZ startPoint path startPoint False safety)"

text \<open>
  The loop \<open>while repeat\<close>: \<open>None\<close> is a loop that never ends. The passes are kept apart;
  \<open>process_stepdown\<close> returns their concatenation. Without a start point the first pass
  raises \<open>AttributeError\<close> at \<open>startPoint.z\<close>.
\<close>

partial_function (option) stepdown_loop ::
  "stepdown_args \<Rightarrow> Command list \<Rightarrow> point \<Rightarrow> point option \<Rightarrow> real \<Rightarrow> bool \<Rightarrow> Command list list
   \<Rightarrow> Command list list option" where
  "stepdown_loop a path startPoint endPoint limit_depth firstStep passes =
     (let limit_depth' = limit_depth - step_depth a;
          (rpt, cmds) = stepdown_pass a path startPoint endPoint limit_depth' firstStep
      in if rpt then stepdown_loop a path startPoint endPoint limit_depth' False (passes @ [cmds])
         else Some (passes @ [cmds]))"

definition process_stepdown :: "Command list \<Rightarrow> stepdown_args \<Rightarrow> (exn + Command list) option" where
  "process_stepdown path a =
     (let startPoint = getPoint path;
          endPoint = getPoint (rev path)
      in case startPoint of
           None \<Rightarrow> Some (Inl AttributeError)
         | Some sp \<Rightarrow>
             (case stepdown_loop a path sp endPoint (start_depth a) True [] of
                None \<Rightarrow> None
              | Some passes \<Rightarrow> Some (Inr (concat passes))))"

section \<open>ZFace.py: \<open>opExecute\<close>\<close>

text \<open>\<open>QuadTree.from_point_list\<close>: the results of the \<open>insert\<close> calls are not looked at.\<close>

fun insert_each :: "nat \<Rightarrow> QuadTree \<Rightarrow> point list \<Rightarrow> exn + QuadTree" where
  "insert_each fuel qt [] = Inr qt"
| "insert_each fuel qt (p # ps) =
     (case QuadTree_insert fuel qt p of
        (None, qt') \<Rightarrow> Inl RecursionError
      | (Some b, qt') \<Rightarrow> insert_each fuel qt' ps)"

definition from_point_list :: "nat \<Rightarrow> point list \<Rightarrow> real \<Rightarrow> int \<Rightarrow> exn + QuadTree option" where
  "from_point_list fuel pts bounds_padding cap =
     (case pts of
        [] \<Rightarrow> Inr None
      | p # ps \<Rightarrow>
          (let xs = map fst pts; ys = map (\<lambda>q. fst (snd q)) pts;
               x0 = fold min (tl xs) (hd xs); x1 = fold max (tl xs) (hd xs);
               y0 = fold min (tl ys) (hd ys); y1 = fold max (tl ys) (hd ys);
               dx = (if x1 - x0 = 0 then 1.0 else x1 - x0);
               dy = (if y1 - y0 = 0 then 1.0 else y1 - y0);
               padx = (if bounds_padding > 0 then bounds_padding else 0.01 * dx);
               pady = (if bounds_padding > 0 then bounds_padding else 0.01 * dy)
           in case insert_each fuel (QuadTree_init (x0 - padx) (x1 + padx) (y0 - pady) (y1 + pady) cap) pts of
                Inl e \<Rightarrow> Inl e
              | Inr qt \<Rightarrow> Inr (Some qt)))"

definition rebuild_quadtree :: "'e zobj \<Rightarrow> zface \<Rightarrow> (real \<times> real \<times> real \<times> real) option \<Rightarrow> exn + zface" where
  "rebuild_quadtree obj st bounds =
     (let pts = (case PointCache st of Dict (Some l) \<Rightarrow> l | _ \<Rightarrow> []) in
      if pts \<noteq> [] then
        (case from_point_list (recursion_limit obj) pts 0.0 8 of
           Inl e \<Rightarrow> Inl e
         | Inr qt \<Rightarrow> Inr (st\<lparr>runtime_quadtree := qt\<rparr>))
      else
        (let (x0, x1, y0, y1) = (case bounds of Some b \<Rightarrow> b | None \<Rightarrow> (- 1000.0, 1000.0, - 1000.0, 1000.0))
         in Inr (st\<lparr>runtime_quadtree := Some (QuadTree_init x0 x1 y0 y1 8)\<rparr>)))"

text \<open>
  The projection loop threads the object state, \<open>newcommandlist\<close>, \<open>currLocation\<close> and the
  commands for which the warning \<open>Empty pointlist but XYZ present\<close> was logged. Progress
  reports and GUI updates do not touch any of them and are left out.
\<close>

record projection =
  zstate :: zface
  newcommandlist :: "Command list"
  currLocation :: "string \<rightharpoonup> real"
  warned :: "Command list"

fun project_points ::
  "'e zobj \<Rightarrow> SegmentKind \<Rightarrow> real \<Rightarrow> point list \<Rightarrow> projection \<Rightarrow> exn + projection" where
  "project_points obj knd z_original_min [] pr = Inr pr"
| "project_points obj knd z_original_min (pnt # pts) pr =
     (case (if knd = IS_ON_PLANE then get_surface_z obj (zstate pr) (fst pnt) (fst (snd pnt))
            else Inr (Some (snd (snd pnt) + OpStockZMax obj), zstate pr)) of
        Inl e \<Rightarrow> Inl e
      | Inr (found, st') \<Rightarrow>
          (let z_surface = (case found of None \<Rightarrow> SafeHeight obj | Some v \<Rightarrow> v);
               internal_offset = snd (snd pnt) - z_original_min;
               final_z = z_surface + internal_offset;
               final_z' = (if final_z > SafeHeight obj then SafeHeight obj else final_z);
               newcommand = G1 [(''X'', fst pnt), (''Y'', fst (snd pnt)), (''Z'', final_z')]
           in project_points obj knd z_original_min pts
                (pr\<lparr>zstate := st',
                    newcommandlist := newcommandlist pr @ [newcommand],
                    currLocation := currLocation pr ++ Parameters newcommand\<rparr>)))"

fun project_segments :: "'e zobj \<Rightarrow> real \<Rightarrow> TaggedSegment list \<Rightarrow> projection \<Rightarrow> exn + projection" where
  "project_segments obj z_original_min [] pr = Inr pr"
| "project_segments obj z_original_min (seg # segments) pr =
     (let c = command seg in
      if kind seg = OTHER then
        project_segments obj z_original_min segments (pr\<lparr>newcommandlist := newcommandlist pr @ [c]\<rparr>)
      else if pointlist seg = [] then
        (let has_xyz = (\<exists>axis \<in> set [''X'', ''Y'', ''Z'']. Parameters c axis \<noteq> None)
         in project_segments obj z_original_min segments
              (pr\<lparr>newcommandlist := newcommandlist pr @ [c],
                  currLocation := currLocation pr ++ Parameters c,
                  warned := (if has_xyz then warned pr @ [c] else warned pr)\<rparr>))
      else
        (case project_points obj (kind seg) z_original_min (pointlist seg) pr of
           Inl e \<Rightarrow> Inl e
         | Inr pr' \<Rightarrow> project_segments obj z_original_min segments pr'))"

definition original_min_z :: "TaggedSegment list \<Rightarrow> real" where
  "original_min_z segments =
     (let all_points = concat (map pointlist segments) in
      case all_points of
        [] \<Rightarrow> 0.0
      | p # ps \<Rightarrow> fold min (map (\<lambda>q. snd (snd q)) ps) (snd (snd p)))"

text \<open>
  The test on \<open>obj.BasePath\<close>: present, derived from \<open>Path::Feature\<close>, with a \<open>Path\<close> whose
  list of commands is not empty; the commands when it passes.
\<close>

definition base_commands :: "base_feature option \<Rightarrow> Command list option" where
  "base_commands bp =
     (case bp of
        None \<Rightarrow> None
      | Some b \<Rightarrow>
          if \<not> isPathFeature b then None
          else (case PathCommands b of None \<Rightarrow> None | Some cs \<Rightarrow> if cs = [] then None else Some cs))"

definition stepdown_args_of :: "'e zobj \<Rightarrow> stepdown_args" where
  "stepdown_args_of obj =
     \<lparr>step_depth = StepDown obj, start_depth = StartDepth obj,
      clearance_height = ClearanceHeight obj, safe_height = SafeHeight obj,
      h_feed = HorizFeed obj, v_feed = VertFeed obj,
      h_rapid = HorizRapid obj, v_rapid = VertRapid obj,
      rapid_through_cleared = True\<rparr>"

text \<open>
  \<open>opExecute\<close>: \<open>Inl\<close> is an exception that leaves it, \<open>None\<close> a stepdown loop that never
  ends. The order is that of the source: the tool shape, then the hash test with the cache
  invalidation, then the faces and the base path.
\<close>

definition opExecute :: "'e zobj \<Rightarrow> zface \<Rightarrow> (exn + zface) option" where
  "opExecute obj st =
     (if ShapeID obj \<noteq> ''endmill'' then Some (Inr st)
      else
        (let faces = collected_faces obj;
             stored_hash = CacheStateHash st;
             current_hash = state_hash obj;
             st1 = (if current_hash \<noteq> stored_hash then clear_cache obj st else st);
             st2 = st1\<lparr>CacheStateHash := current_hash\<rparr>
         in if faces = [] then
              (case getPathWithPlacement obj (BasePath obj) of
                 Inl e \<Rightarrow> Some (Inl e)
               | Inr p \<Rightarrow> Some (Inr (st2\<lparr>Path := p\<rparr>)))
            else
              (case base_commands (BasePath obj) of
                 None \<Rightarrow> Some (Inr (st2\<lparr>Path := []\<rparr>))
               | Some commands \<Rightarrow>
                   (case rebuild_quadtree obj st2 (compound_bounds obj) of
                      Inl e \<Rightarrow> Some (Inl e)
                    | Inr st3 \<Rightarrow>
                        (let start_location = (0, 0, SafeHeight obj);
                             segments = discretize_commands (edgeForCmd obj) (discretize obj)
                                          commands start_location
                                          (SafeHeight obj) (ClearanceHeight obj)
                                          (SegInterpolate obj) (ArcInterpolate obj);
                             z_original_min = original_min_z segments
                         in case project_segments obj z_original_min segments
                                   \<lparr>zstate = st3, newcommandlist = [],
                                    currLocation = [''X'' \<mapsto> 0.0, ''Y'' \<mapsto> 0.0, ''Z'' \<mapsto> 0.0],
                                    warned = []\<rparr> of
                              Inl e \<Rightarrow> Some (Inl e)
                            | Inr pr \<Rightarrow>
                                (case process_stepdown (newcommandlist pr) (stepdown_args_of obj) of
                                   None \<Rightarrow> None
                                 | Some (Inl e) \<Rightarrow> Some (Inl e)
                                 | Some (Inr stepped_down) \<Rightarrow>
                                     Some (Inr ((zstate pr)\<lparr>commandlist := stepped_down\<rparr>))))))))"

section \<open>Auxiliary notions for the spatial index\<close>

fun node_points :: "Node \<Rightarrow> point set" where
  "node_points (Node x0 x1 y0 y1 cap pts chs) =
     set pts \<union> (case chs of None \<Rightarrow> {} | Some cs \<Rightarrow> (\<Union>ch \<in> set cs. node_points ch))"

definition inside :: "Node \<Rightarrow> point \<Rightarrow> bool" where
  "inside n p = contains n (fst p) (fst (snd p))"

fun bounded :: "Node \<Rightarrow> bool" where
  "bounded (Node x0 x1 y0 y1 cap pts chs) =
     ((\<forall>p \<in> node_points (Node x0 x1 y0 y1 cap pts chs). inside (Node x0 x1 y0 y1 cap pts chs) p) \<and>
      (case chs of None \<Rightarrow> True | Some cs \<Rightarrow> (\<forall>ch \<in> set cs. bounded ch)))"

definition dist_sq :: "real \<Rightarrow> real \<Rightarrow> point \<Rightarrow> real" where
  "dist_sq x y p = (fst p - x) * (fst p - x) + (fst (snd p) - y) * (fst (snd p) - y)"

fun reaches :: "(real \<times> point) option \<Rightarrow> real \<Rightarrow> bool" where
  "reaches None v = False"
| "reaches (Some (d, q)) v = (d \<le> v)"

definition improves :: "real \<Rightarrow> real \<Rightarrow> point set \<Rightarrow> (real \<times> point) option \<Rightarrow> (real \<times> point) option \<Rightarrow> bool" where
  "improves x y S best r =
     ((r = best \<or> (\<exists>p \<in> S. r = Some (dist_sq x y p, p))) \<and>
      (\<forall>p \<in> S. reaches r (dist_sq x y p)) \<and>
      (\<forall>v. reaches best v \<longrightarrow> reaches r v))"

definition children_points :: "Node list \<Rightarrow> point set" where
  "children_points cs = (\<Union>ch \<in> set cs. node_points ch)"

definition sound_ins :: "(Node \<Rightarrow> bool option \<times> Node) \<Rightarrow> point \<Rightarrow> bool" where
  "sound_ins ins p =
     (\<forall>ch b ch'. ins ch = (Some b, ch') \<longrightarrow> bounded ch \<longrightarrow>
        bounded ch' \<and> node_points ch' = node_points ch \<union> (if b then {p} else {}))"

section \<open>Inputs and notions used in the statements\<close>

text \<open>
  Section results and primitives for the instances below: a section that is valid but
  shorter than the circumference of the tool, an invalid one, a primitive that only yields
  short sections for the direct attempts, one whose approximated sections lie lower, and
  one that raises.
\<close>

definition short_section :: shape where
  "short_section = \<lparr>isValid = True, isNull = False, XMin = 0, XMax = 1, YMin = 0, YMax = 1,
     ZMin = 0, ZMax = 5, Length = 1, Edges = 1\<rparr>"

definition invalid_section :: shape where
  "invalid_section = \<lparr>isValid = False, isNull = False, XMin = 0, XMax = 0, YMin = 0, YMax = 0,
     ZMin = 0, ZMax = 0, Length = 0, Edges = 0\<rparr>"

definition partial_prim :: primitive where
  "partial_prim x y rp target =
     (if \<not> use_approximation rp \<and> use_compound rp \<and> \<not> use_poly_cylinder rp then Inr short_section
      else Inr invalid_section)"

definition overhang_prim :: primitive where
  "overhang_prim x y rp target =
     (if use_approximation rp then Inr (short_section\<lparr>ZMax := 2\<rparr>) else Inr short_section)"


text \<open>The non-null Z bounds of a list of attempts, in the order of the attempts.\<close>

fun observed :: "primitive \<Rightarrow> face list \<Rightarrow> real \<Rightarrow> real \<Rightarrow> run_params list \<Rightarrow> real list" where
  "observed prim faces x y [] = []"
| "observed prim faces x y (q # qs) =
     (case try_intersect_z prim faces x y q of
        Inr (s, Some v) \<Rightarrow> v # observed prim faces x y qs
      | _ \<Rightarrow> observed prim faces x y qs)"


text \<open>
  A geometry kernel of straight moves: the edge from the tracked position to the target of
  the command, none when the two coincide; an edge is sampled by its two ends.
\<close>

definition line_edge :: "Command \<Rightarrow> point \<Rightarrow> (point \<times> point) option" where
  "line_edge c loc = (if update_location loc c = loc then None else Some (loc, update_location loc c))"

definition end_points :: "point \<times> point \<Rightarrow> sampling \<Rightarrow> point list" where
  "end_points e s = [fst e, snd e]"

definition flat_section :: shape where
  "flat_section = \<lparr>isValid = True, isNull = False, XMin = 0, XMax = 2, YMin = 0, YMax = 2,
     ZMin = 5, ZMax = 5, Length = 13, Edges = 1\<rparr>"

definition flat_prim :: primitive where
  "flat_prim x y rp target = Inr flat_section"

definition placed_path :: "base_feature option \<Rightarrow> exn + Command list" where
  "placed_path bp =
     (case bp of
        None \<Rightarrow> Inl AttributeError
      | Some b \<Rightarrow> (case PathCommands b of None \<Rightarrow> Inl AttributeError | Some cs \<Rightarrow> Inr cs))"

definition square_path :: "Command list" where
  "square_path = [G1 [(''X'', 0), (''Y'', 0), (''Z'', 0)], G1 [(''X'', 4)], G1 [(''Y'', 4)],
                  G1 [(''X'', 0)], G1 [(''Y'', 0)]]"

definition sample_obj :: "(point \<times> point) zobj" where
  "sample_obj =
     \<lparr>ShapeID = ''endmill'', ToolDiameter = 2, HorizFeed = 100, VertFeed = 50,
      HorizRapid = 1000, VertRapid = 500, SafeHeight = 25, ClearanceHeight = 30,
      OpStockZMax = 10, StepDown = 1, StartDepth = 6, CacheGrid = 12,
      SegInterpolate = 1, ArcInterpolate = 1 / 10, BlockCacheInvalidation = False,
      BasePath = Some \<lparr>isPathFeature = True, PathCommands = Some square_path\<rparr>,
      collected_faces = [0], state_hash = ''new'', compound_bounds = Some (0, 10, 0, 10),
      section_primitive = flat_prim, edgeForCmd = line_edge, discretize = end_points,
      getPathWithPlacement = placed_path, recursion_limit = 1000\<rparr>"


definition empty_zface :: zface where
  "empty_zface =
     \<lparr>PointCache = Dict None,
      runtime_quadtree = Some (QuadTree_init (- 1000) 1000 (- 1000) 1000 8),
      CacheStateHash = ''old'', Path = [], commandlist = []\<rparr>"


text \<open>The state after the hash test of \<open>opExecute\<close>.\<close>

definition after_hash_check :: "'e zobj \<Rightarrow> zface \<Rightarrow> zface" where
  "after_hash_check obj st =
     (if state_hash obj \<noteq> CacheStateHash st then clear_cache obj st else st)\<lparr>CacheStateHash := state_hash obj\<rparr>"

definition cached_zface :: zface where
  "cached_zface =
     \<lparr>PointCache = Dict (Some [(1, 1, 5)]),
      runtime_quadtree = None,
      CacheStateHash = ''old'', Path = [G1 [(''X'', 1), (''Y'', 1), (''Z'', 5)]], commandlist = []\<rparr>"

definition start_projection :: projection where
  "start_projection =
     \<lparr>zstate = empty_zface, newcommandlist = [],
      currLocation = [''X'' \<mapsto> 0.0, ''Y'' \<mapsto> 0.0, ''Z'' \<mapsto> 0.0], warned = []\<rparr>"






section \<open>The nearest-neighbour search is exact\<close>

lemma improves_empty: "improves x y {} best best"
  by (simp add: improves_def)

lemma improves_trans:
  assumes a: "improves x y S1 b r1" and c: "improves x y S2 r1 r2"
  shows "improves x y (S1 \<union> S2) b r2"
proof -
  from a have a1: "r1 = b \<or> (\<exists>p \<in> S1. r1 = Some (dist_sq x y p, p))"
    and a2: "\<And>p. p \<in> S1 \<Longrightarrow> reaches r1 (dist_sq x y p)"
    and a3: "\<And>v. reaches b v \<Longrightarrow> reaches r1 v"
    unfolding improves_def by simp_all
  from c have c1: "r2 = r1 \<or> (\<exists>p \<in> S2. r2 = Some (dist_sq x y p, p))"
    and c2: "\<And>p. p \<in> S2 \<Longrightarrow> reaches r2 (dist_sq x y p)"
    and c3: "\<And>v. reaches r1 v \<Longrightarrow> reaches r2 v"
    unfolding improves_def by simp_all
  have p1: "r2 = b \<or> (\<exists>p \<in> S1 \<union> S2. r2 = Some (dist_sq x y p, p))"
    using a1 c1 by auto
  have p2: "reaches r2 (dist_sq x y p)" if m: "p \<in> S1 \<union> S2" for p
  proof (cases "p \<in> S2")
    case True
    then show ?thesis by (rule c2)
  next
    case False
    then have "p \<in> S1" using m by simp
    then show ?thesis by (intro c3 a2)
  qed
  have p3: "reaches r2 v" if e: "reaches b v" for v
    by (intro c3 a3 e)
  show ?thesis unfolding improves_def using p1 p2 p3 by simp
qed

lemma improves_prune:
  assumes "\<forall>p \<in> S. bd \<le> dist_sq x y p"
  shows "improves x y S (Some (bd, bp)) (Some (bd, bp))"
  using assms by (simp add: improves_def)

lemma improves_scan: "improves x y {p} best (scan_point x y p best)"
proof (cases best)
  case None
  then show ?thesis by (cases p) (simp add: improves_def dist_sq_def Let_def)
next
  case (Some b)
  obtain bd bp where b: "b = (bd, bp)" by (cases b)
  obtain px py pz where p: "p = (px, py, pz)" by (cases p)
  show ?thesis
    unfolding Some b p by (simp add: improves_def dist_sq_def Let_def)
qed

lemma improves_fold_scan: "improves x y (set pts) best (fold (scan_point x y) pts best)"
proof (induction pts arbitrary: best)
  case Nil
  show ?case by (simp add: improves_empty)
next
  case (Cons p pts)
  have "improves x y ({p} \<union> set pts) best (fold (scan_point x y) pts (scan_point x y p best))"
    by (rule improves_trans [OF improves_scan Cons.IH])
  then show ?case by simp
qed

lemma improves_fold_children:
  assumes "\<And>ch b. ch \<in> set cs \<Longrightarrow> improves x y (node_points ch) b (f ch b)"
  shows "improves x y (\<Union>ch \<in> set cs. node_points ch) best (fold f cs best)"
  using assms
proof (induction cs arbitrary: best)
  case Nil
  show ?case by (simp add: improves_empty)
next
  case (Cons c cs)
  have a: "improves x y (node_points c) best (f c best)" using Cons.prems by simp
  have b: "improves x y (\<Union>ch \<in> set cs. node_points ch) (f c best) (fold f cs (f c best))"
    using Cons.IH Cons.prems by simp
  show ?case using improves_trans [OF a b] by simp
qed

lemma box_lower_bound:
  assumes "x0 \<le> px" "px \<le> x1"
  shows "(if x < x0 then x0 - x else if x > x1 then x - x1 else 0) * (if x < x0 then x0 - x else if x > x1 then x - x1 else 0)
           \<le> (px - x) * (px - (x::real))"
proof -
  let ?d = "if x < x0 then x0 - x else if x > x1 then x - x1 else 0"
  have "0 \<le> ?d" by simp
  moreover have "?d \<le> \<bar>px - x\<bar>" using assms by auto
  ultimately have "?d * ?d \<le> \<bar>px - x\<bar> * \<bar>px - x\<bar>" by (intro mult_mono) auto
  then show ?thesis by simp
qed

lemma nearest_node_improves:
  "bounded n \<Longrightarrow> improves x y (node_points n) best (nearest_node n x y best)"
proof (induction n x y best rule: nearest_node.induct)
  case (1 x0 x1 y0 y1 cap pts chs x y best)
  let ?n = "Node x0 x1 y0 y1 cap pts chs"
  let ?dx = "if x < x0 then x0 - x else if x > x1 then x - x1 else 0"
  let ?dy = "if y < y0 then y0 - y else if y > y1 then y - y1 else 0"
  let ?m = "?dx * ?dx + ?dy * ?dy"
  have lower: "?m \<le> dist_sq x y p" if "p \<in> node_points ?n" for p
  proof -
    have "inside ?n p" using "1.prems" that by simp
    then have "x0 \<le> fst p" "fst p \<le> x1" "y0 \<le> fst (snd p)" "fst (snd p) \<le> y1"
      by (simp_all add: inside_def contains_def)
    then show ?thesis
      unfolding dist_sq_def using box_lower_bound [of x0 "fst p" x1 x] box_lower_bound [of y0 "fst (snd p)" y1 y]
      by linarith
  qed
  show ?case
  proof (cases "case best of None \<Rightarrow> False | Some (bd, bp) \<Rightarrow> ?m \<ge> bd")
    case True
    then obtain bd bp where b: "best = Some (bd, bp)" and le: "bd \<le> ?m"
      by (cases best) auto
    have "\<forall>p \<in> node_points ?n. bd \<le> dist_sq x y p" using lower le by force
    then have "improves x y (node_points ?n) (Some (bd, bp)) (Some (bd, bp))" by (rule improves_prune)
    moreover have "nearest_node ?n x y best = best" using True by (simp add: Let_def)
    ultimately show ?thesis using b by simp
  next
    case False
    let ?b1 = "fold (scan_point x y) pts best"
    have s1: "improves x y (set pts) best ?b1" by (rule improves_fold_scan)
    show ?thesis
    proof (cases chs)
      case None
      then have "nearest_node ?n x y best = ?b1" using False by (simp add: Let_def)
      then show ?thesis using s1 None by simp
    next
      case (Some cs)
      let ?f = "\<lambda>ch b. nearest_node ch x y b"
      let ?cs = "sort_key (child_key x y) cs"
      have r: "nearest_node ?n x y best = fold ?f ?cs ?b1" using False Some by (simp add: Let_def)
      have ih: "improves x y (node_points ch) b (?f ch b)" if "ch \<in> set ?cs" for ch b
      proof -
        have "bounded ch" using "1.prems" that Some by simp
        then show ?thesis using "1.IH" [OF refl refl refl False refl Some that] by simp
      qed
      have "improves x y (\<Union>ch \<in> set ?cs. node_points ch) ?b1 (fold ?f ?cs ?b1)"
        by (rule improves_fold_children) (rule ih)
      then have "improves x y (set pts \<union> (\<Union>ch \<in> set cs. node_points ch)) best (fold ?f ?cs ?b1)"
        using improves_trans [OF s1] by simp
      then show ?thesis using r Some by simp
    qed
  qed
qed

lemma insert_children_sound:
  assumes "sound_ins ins p"
    and "insert_children ins chs = (Some b, chs')"
    and "\<forall>ch \<in> set chs. bounded ch"
  shows "(\<forall>ch \<in> set chs'. bounded ch) \<and>
         children_points chs' = children_points chs \<union> (if b then {p} else {})"
  using assms(2,3)
proof (induction chs arbitrary: b chs')
  case Nil
  then show ?case by (auto simp: children_points_def)
next
  case (Cons c cs)
  obtain r c' where ic: "ins c = (r, c')" by (cases "ins c")
  have bc: "bounded c" using Cons.prems(2) by simp
  show ?case
  proof (cases r)
    case None
    then show ?thesis using Cons.prems(1) ic by simp
  next
    case (Some b0)
    have s: "bounded c' \<and> node_points c' = node_points c \<union> (if b0 then {p} else {})"
      using assms(1) ic Some bc unfolding sound_ins_def by blast
    show ?thesis
    proof (cases b0)
      case True
      then have "b = True" "chs' = c' # cs" using Cons.prems(1) ic Some by auto
      then show ?thesis using s True Cons.prems(2) by (auto simp: children_points_def)
    next
      case False
      obtain r2 cs2 where rest: "insert_children ins cs = (r2, cs2)" by (cases "insert_children ins cs")
      have e: "r2 = Some b" "chs' = c' # cs2" using Cons.prems(1) ic Some False rest by auto
      have ih: "(\<forall>ch \<in> set cs2. bounded ch) \<and> children_points cs2 = children_points cs \<union> (if b then {p} else {})"
        using Cons.IH [of b cs2] rest e Cons.prems(2) by simp
      show ?thesis using s False ih e by (auto simp: children_points_def)
    qed
  qed
qed

lemma move_points_sound:
  assumes "\<And>q. sound_ins (ins q) q"
    and "move_points ins ps kept chs = (True, kept', chs')"
    and "\<forall>ch \<in> set chs. bounded ch"
  shows "(\<forall>ch \<in> set chs'. bounded ch) \<and>
         set kept' \<union> children_points chs' = set kept \<union> children_points chs \<union> set ps"
  using assms(2,3)
proof (induction ps arbitrary: kept chs)
  case Nil
  then show ?case by simp
next
  case (Cons q qs)
  obtain r cs1 where ic: "insert_children (ins q) chs = (r, cs1)" by (cases "insert_children (ins q) chs")
  show ?case
  proof (cases r)
    case None
    then show ?thesis using Cons.prems(1) ic by simp
  next
    case (Some b)
    have s: "(\<forall>ch \<in> set cs1. bounded ch) \<and> children_points cs1 = children_points chs \<union> (if b then {q} else {})"
      using insert_children_sound [OF assms(1) _ Cons.prems(2)] ic Some by simp
    show ?thesis
    proof (cases b)
      case True
      then have m: "move_points ins qs kept cs1 = (True, kept', chs')" using Cons.prems(1) ic Some by simp
      show ?thesis using Cons.IH [OF m] s True by auto
    next
      case False
      then have m: "move_points ins qs (kept @ [q]) cs1 = (True, kept', chs')" using Cons.prems(1) ic Some by simp
      show ?thesis using Cons.IH [OF m] s False by auto
    qed
  qed
qed

lemma node_points_with_contents [simp]:
  "node_points (with_contents n pts None) = set pts"
  "node_points (with_contents n pts (Some cs)) = set pts \<union> children_points cs"
  by (simp_all add: with_contents_def children_points_def)

lemma inside_with_contents [simp]: "inside (with_contents n pts chs) p = inside n p"
  by (simp add: with_contents_def inside_def contains_def)

lemma bounded_with_contents:
  "bounded (with_contents n pts None) = (\<forall>p \<in> set pts. inside n p)"
  "bounded (with_contents n pts (Some cs)) =
     ((\<forall>p \<in> set pts \<union> children_points cs. inside n p) \<and> (\<forall>ch \<in> set cs. bounded ch))"
  by (simp_all add: with_contents_def children_points_def inside_def contains_def)

lemma node_unfold:
  "children n = None \<Longrightarrow> n = with_contents n (points n) None"
  "children n = Some cs \<Longrightarrow> n = with_contents n (points n) (Some cs)"
  by (cases n; simp add: with_contents_def)+

lemma bounded_inside: "bounded n \<Longrightarrow> p \<in> node_points n \<Longrightarrow> inside n p"
  by (cases n) simp

lemma subdivide_fresh:
  "\<forall>ch \<in> set (subdivide n). bounded ch" "children_points (subdivide n) = {}"
  by (simp_all add: subdivide_def Let_def children_points_def)

lemma insert_tail_sound:
  assumes si: "sound_ins ins p"
    and it: "insert_tail ins n pts chs p = (Some b, n')"
    and bc: "\<forall>ch \<in> set chs. bounded ch"
    and ins: "\<forall>q \<in> set pts \<union> children_points chs. inside n q"
    and pin: "inside n p"
  shows "b \<and> bounded n' \<and> node_points n' = set pts \<union> children_points chs \<union> {p}"
proof -
  obtain r cs1 where ic: "insert_children ins chs = (r, cs1)" by (cases "insert_children ins chs")
  show ?thesis
  proof (cases r)
    case None
    then show ?thesis using it ic by (simp add: insert_tail_def)
  next
    case (Some b0)
    have s: "(\<forall>ch \<in> set cs1. bounded ch) \<and> children_points cs1 = children_points chs \<union> (if b0 then {p} else {})"
      using insert_children_sound [OF si _ bc] ic Some by simp
    show ?thesis
    proof (cases b0)
      case True
      then have e: "b" "n' = with_contents n pts (Some cs1)"
        using it ic Some by (simp_all add: insert_tail_def)
      show ?thesis using e s True ins pin by (auto simp: bounded_with_contents)
    next
      case False
      then have e: "b" "n' = with_contents n (pts @ [p]) (Some cs1)"
        using it ic Some by (simp_all add: insert_tail_def)
      show ?thesis using e s False ins pin by (auto simp: bounded_with_contents)
    qed
  qed
qed

lemma insert_node_sound: "sound_ins (\<lambda>ch. insert_node k ch p) p"
proof (induction k arbitrary: p)
  case 0
  show ?case by (simp add: sound_ins_def)
next
  case (Suc k)
  show ?case
    unfolding sound_ins_def
  proof (intro allI impI)
    fix n b n'
    assume r: "insert_node (Suc k) n p = (Some b, n')" and bn: "bounded n"
    show "bounded n' \<and> node_points n' = node_points n \<union> (if b then {p} else {})"
    proof (cases "contains n (fst p) (fst (snd p))")
      case False
      then show ?thesis using r bn by simp
    next
      case True
      then have pin: "inside n p" by (simp add: inside_def)
      show ?thesis
      proof (cases "children n")
        case None
        note nu = node_unfold(1) [OF None]
        have old: "\<forall>q \<in> set (points n). inside n q"
          using bn nu bounded_with_contents(1) [of n "points n"] by simp
        have np: "node_points n = set (points n)"
          using nu node_points_with_contents(1) [of n "points n"] by simp
        show ?thesis
        proof (cases "int (length (points n)) < capacity n")
          case lt: True
          then have e: "b" "n' = with_contents n (points n @ [p]) None"
            using r True None by simp_all
          show ?thesis using e old pin np by (auto simp: bounded_with_contents)
        next
          case ge: False
          obtain ok kept chs where mp: "move_points (\<lambda>q ch. insert_node k ch q) (points n) [] (subdivide n) = (ok, kept, chs)"
            by (cases "move_points (\<lambda>q ch. insert_node k ch q) (points n) [] (subdivide n)")
          show ?thesis
          proof (cases ok)
            case False
            then show ?thesis using r True None ge mp by simp
          next
            case okT: True
            have m: "(\<forall>ch \<in> set chs. bounded ch) \<and>
                     set kept \<union> children_points chs = set [] \<union> children_points (subdivide n) \<union> set (points n)"
              using move_points_sound [of "\<lambda>q ch. insert_node k ch q" "points n" "[]" "subdivide n" kept chs]
                Suc.IH mp okT subdivide_fresh(1) by simp
            then have eq: "set kept \<union> children_points chs = set (points n)"
              by (simp add: subdivide_fresh(2))
            have it: "insert_tail (\<lambda>ch. insert_node k ch p) n kept chs p = (Some b, n')"
              using r True None ge mp okT by simp
            have "\<forall>q \<in> set kept \<union> children_points chs. inside n q" using eq old by simp
            from insert_tail_sound [OF Suc.IH it _ this pin] m
            have "b \<and> bounded n' \<and> node_points n' = set kept \<union> children_points chs \<union> {p}" by simp
            then show ?thesis using eq np by simp
          qed
        qed
      next
        case (Some chs)
        note nu = node_unfold(2) [OF Some]
        have old: "(\<forall>q \<in> set (points n) \<union> children_points chs. inside n q) \<and> (\<forall>ch \<in> set chs. bounded ch)"
          using bn nu bounded_with_contents(2) [of n "points n" chs] by simp
        have np: "node_points n = set (points n) \<union> children_points chs"
          using nu node_points_with_contents(2) [of n "points n" chs] by simp
        have it: "insert_tail (\<lambda>ch. insert_node k ch p) n (points n) chs p = (Some b, n')"
          using r True Some by simp
        from insert_tail_sound [OF Suc.IH it _ _ pin] old
        have "b \<and> bounded n' \<and> node_points n' = set (points n) \<union> children_points chs \<union> {p}" by simp
        then show ?thesis using np by simp
      qed
    qed
  qed
qed

lemma insert_list_sound:
  assumes "insert_list fuel qt samples = Some (qt', stored)" and "bounded (root qt)"
  shows "bounded (root qt') \<and> node_points (root qt') = node_points (root qt) \<union> set stored"
  using assms
proof (induction samples arbitrary: qt stored)
  case Nil
  then show ?case by simp
next
  case (Cons p ps)
  obtain r n1 where i1: "insert_node fuel (root qt) p = (r, n1)" by (cases "insert_node fuel (root qt) p")
  show ?case
  proof (cases r)
    case None
    then show ?thesis using Cons.prems(1) i1 by (simp add: QuadTree_insert_def)
  next
    case (Some b)
    have s: "bounded n1 \<and> node_points n1 = node_points (root qt) \<union> (if b then {p} else {})"
      using insert_node_sound [of fuel p] i1 Some Cons.prems(2) unfolding sound_ins_def by blast
    obtain acc where rest: "insert_list fuel \<lparr>root = n1\<rparr> ps = Some (qt', acc)"
      and e: "stored = (if b then p # acc else acc)"
      using Cons.prems(1) i1 Some by (auto simp: QuadTree_insert_def split: option.splits)
    have "bounded (root qt') \<and> node_points (root qt') = node_points n1 \<union> set acc"
      using Cons.IH [OF rest] s by simp
    then show ?thesis using e s by auto
  qed
qed

lemma QuadTree_init_empty:
  "bounded (root (QuadTree_init x0 x1 y0 y1 cap))" "node_points (root (QuadTree_init x0 x1 y0 y1 cap)) = {}"
  by (simp_all add: QuadTree_init_def Let_def)

lemma improves_from_None:
  assumes "improves x y S None r"
  shows "(r = None \<longleftrightarrow> S = {}) \<and>
         (\<forall>d p. r = Some (d, p) \<longrightarrow> p \<in> S \<and> d = dist_sq x y p \<and> (\<forall>q \<in> S. d \<le> dist_sq x y q))"
proof -
  from assms have a1: "r = None \<or> (\<exists>p \<in> S. r = Some (dist_sq x y p, p))"
    and a2: "\<And>p. p \<in> S \<Longrightarrow> reaches r (dist_sq x y p)"
    unfolding improves_def by simp_all
  have "r = None \<longleftrightarrow> S = {}"
  proof
    assume "r = None"
    then show "S = {}" using a2 by fastforce
  next
    assume "S = {}"
    then show "r = None" using a1 by simp
  qed
  moreover have "p \<in> S \<and> d = dist_sq x y p \<and> (\<forall>q \<in> S. d \<le> dist_sq x y q)" if "r = Some (d, p)" for d p
  proof -
    have "p \<in> S \<and> d = dist_sq x y p" using a1 that by auto
    moreover have "d \<le> dist_sq x y q" if "q \<in> S" for q using a2 [OF that] \<open>r = Some (d, p)\<close> by simp
    ultimately show ?thesis by simp
  qed
  ultimately show ?thesis by blast
qed

text \<open>
  Which samples are stored: \<open>insert\<close> returns \<open>True\<close> exactly for the samples inside the
  region of the root, and it never changes that region.
\<close>

lemma insert_tail_region:
  "insert_tail ins n pts chs p = (r, n') \<Longrightarrow> inside n' q = inside n q"
  by (auto simp: insert_tail_def split: prod.splits option.splits bool.splits)

lemma insert_tail_accepts:
  "insert_tail ins n pts chs p = (Some b, n') \<Longrightarrow> b"
  by (auto simp: insert_tail_def split: prod.splits option.splits bool.splits)

lemma insert_node_region:
  "insert_node k n p = (r, n') \<Longrightarrow> inside n' q = inside n q"
proof (cases k)
  case 0
  assume "insert_node k n p = (r, n')"
  with 0 show ?thesis by simp
next
  case (Suc j)
  assume "insert_node k n p = (r, n')"
  with Suc show ?thesis
    by (auto simp: insert_tail_region split: if_splits option.splits prod.splits bool.splits)
qed

lemma insert_node_accepts:
  "insert_node k n p = (Some b, n') \<Longrightarrow> b = inside n p"
proof (cases k)
  case 0
  assume "insert_node k n p = (Some b, n')"
  with 0 show ?thesis by simp
next
  case (Suc j)
  assume "insert_node k n p = (Some b, n')"
  with Suc show ?thesis
    by (auto simp: inside_def dest: insert_tail_accepts split: if_splits option.splits prod.splits bool.splits)
qed

lemma insert_list_stores_samples_in_region:
  assumes "insert_list fuel qt samples = Some (qt', stored)"
  shows "stored = filter (inside (root qt)) samples"
  using assms
proof (induction samples arbitrary: qt stored)
  case Nil
  then show ?case by simp
next
  case (Cons p ps)
  obtain r n1 where i1: "insert_node fuel (root qt) p = (r, n1)" by (cases "insert_node fuel (root qt) p")
  show ?case
  proof (cases r)
    case None
    then show ?thesis using Cons.prems i1 by (simp add: QuadTree_insert_def)
  next
    case (Some b)
    obtain acc where rest: "insert_list fuel \<lparr>root = n1\<rparr> ps = Some (qt', acc)"
      and e: "stored = (if b then p # acc else acc)"
      using Cons.prems i1 Some by (auto simp: QuadTree_insert_def split: option.splits)
    have b: "b = inside (root qt) p" using insert_node_accepts i1 Some by simp
    have same: "inside n1 = inside (root qt)" using insert_node_region [OF i1] by auto
    have "acc = filter (inside n1) ps" using Cons.IH [OF rest] by simp
    then show ?thesis using e b same by simp
  qed
qed

text \<open>
  Claim C1. Whatever samples were offered to a freshly constructed tree, as long as every
  \<open>insert\<close> call returned, \<open>stored\<close> being the samples whose call returned \<open>True\<close>:
  \<open>nearest(x, y)\<close> is \<open>None\<close> exactly when nothing was stored, and otherwise it returns a
  stored sample together with its planar Euclidean distance to the query point, and no stored
  sample is closer (pruning, the order of the children and points kept in a parent node
  after a subdivision lose nothing).
\<close>

theorem nearest_returns_closest_stored_sample:
  assumes "insert_list fuel (QuadTree_init x0 x1 y0 y1 cap) samples = Some (qt, stored)"
  shows "(QuadTree_nearest qt x y = None \<longleftrightarrow> stored = []) \<and>
         (\<forall>px py pz d. QuadTree_nearest qt x y = Some (px, py, pz, d) \<longrightarrow>
            (px, py, pz) \<in> set stored \<and>
            d = sqrt ((px - x) * (px - x) + (py - y) * (py - y)) \<and>
            (\<forall>(qx, qy, qz) \<in> set stored. d \<le> sqrt ((qx - x) * (qx - x) + (qy - y) * (qy - y))))"
proof -
  have inv: "bounded (root qt)" and pts: "node_points (root qt) = set stored"
    using insert_list_sound [OF assms QuadTree_init_empty(1)] QuadTree_init_empty(2) by simp_all
  let ?r = "nearest_node (root qt) x y None"
  have "improves x y (set stored) None ?r"
    using nearest_node_improves [OF inv, of x y None] pts by simp
  from improves_from_None [OF this]
  have n: "?r = None \<longleftrightarrow> set stored = {}"
    and s: "\<And>d p. ?r = Some (d, p) \<Longrightarrow> p \<in> set stored \<and> d = dist_sq x y p \<and> (\<forall>q \<in> set stored. d \<le> dist_sq x y q)"
    by blast+
  have first: "QuadTree_nearest qt x y = None \<longleftrightarrow> stored = []"
    using n by (auto simp: QuadTree_nearest_def split: option.splits)
  have second: "(px, py, pz) \<in> set stored \<and>
            d = sqrt ((px - x) * (px - x) + (py - y) * (py - y)) \<and>
            (\<forall>(qx, qy, qz) \<in> set stored. d \<le> sqrt ((qx - x) * (qx - x) + (qy - y) * (qy - y)))"
    if q: "QuadTree_nearest qt x y = Some (px, py, pz, d)" for px py pz d
  proof -
    obtain d2 where r: "?r = Some (d2, (px, py, pz))" and d: "d = sqrt d2"
      using q by (auto simp: QuadTree_nearest_def split: option.splits)
    from s [OF r] have m: "(px, py, pz) \<in> set stored" and e: "d2 = dist_sq x y (px, py, pz)"
      and le: "\<And>q. q \<in> set stored \<Longrightarrow> d2 \<le> dist_sq x y q" by auto
    have "d \<le> sqrt ((qx - x) * (qx - x) + (qy - y) * (qy - y))" if "(qx, qy, qz) \<in> set stored" for qx qy qz
      using le [OF that] d by (simp add: dist_sq_def)
    then show ?thesis using m e d by (auto simp: dist_sq_def)
  qed
  show ?thesis using first second by blast
qed

theorem nearest_returns_closest_stored_sample_witness:
  "insert_list 5 (QuadTree_init 0 4 0 4 1) [(1, 1, 5), (3, 3, 7), (9, 9, 9), (1, 3, 2)] =
     Some (\<lparr>root = Node 0 4 0 4 1 []
       (Some [Node 0 2 2 4 1 [(1, 3, 2)] None, Node 2 4 2 4 1 [(3, 3, 7)] None,
              Node 0 2 0 2 1 [(1, 1, 5)] None, Node 2 4 0 2 1 [] None])\<rparr>,
       [(1, 1, 5), (3, 3, 7), (1, 3, 2)]) \<and>
   QuadTree_nearest \<lparr>root = Node 0 4 0 4 1 []
       (Some [Node 0 2 2 4 1 [(1, 3, 2)] None, Node 2 4 2 4 1 [(3, 3, 7)] None,
              Node 0 2 0 2 1 [(1, 1, 5)] None, Node 2 4 0 2 1 [] None])\<rparr> 3 2 \<noteq> None"
proof -
  have h: "insert_list 5 (QuadTree_init 0 4 0 4 1) [(1, 1, 5), (3, 3, 7), (9, 9, 9), (1, 3, 2)] =
     Some (\<lparr>root = Node 0 4 0 4 1 []
       (Some [Node 0 2 2 4 1 [(1, 3, 2)] None, Node 2 4 2 4 1 [(3, 3, 7)] None,
              Node 0 2 0 2 1 [(1, 1, 5)] None, Node 2 4 0 2 1 [] None])\<rparr>,
       [(1, 1, 5), (3, 3, 7), (1, 3, 2)])"
    by code_simp
  show ?thesis using h nearest_returns_closest_stored_sample [OF h, of 3 2] by simp
qed

section \<open>The fallback loop of \<open>intersect_z\<close>\<close>

lemma observed_append:
  "observed prim faces x y (qs @ qs') = observed prim faces x y qs @ observed prim faces x y qs'"
  by (induction qs) (auto split: sum.splits option.splits)

lemma intersect_loop_skip:
  assumes "\<forall>q \<in> set pre. \<exists>z. try_intersect_z prim faces x y q = Inr (False, z)"
  shows "intersect_loop prim faces x y (pre @ rest) zmaxs =
         intersect_loop prim faces x y rest (zmaxs @ observed prim faces x y pre)"
  using assms
proof (induction pre arbitrary: zmaxs)
  case Nil
  show ?case by simp
next
  case (Cons q qs)
  obtain z where t: "try_intersect_z prim faces x y q = Inr (False, z)" using Cons.prems by auto
  have rest: "\<forall>q \<in> set qs. \<exists>z. try_intersect_z prim faces x y q = Inr (False, z)" using Cons.prems by simp
  show ?case
  proof (cases z)
    case None
    then show ?thesis using t Cons.IH [OF rest, of zmaxs] by simp
  next
    case (Some v)
    then show ?thesis using t Cons.IH [OF rest, of "zmaxs @ [v]"] by simp
  qed
qed

lemma py_max_Max: "vs \<noteq> [] \<Longrightarrow> py_max vs = Inr (Max (set vs))"
proof (cases vs)
  case Nil
  assume "vs \<noteq> []"
  with Nil show ?thesis by simp
next
  case (Cons v ws)
  have "Max (set (v # ws)) = fold max ws v" by (rule Max.set_eq_fold)
  then show ?thesis using Cons by simp
qed

lemma intersect_loop_success:
  assumes "try_intersect_z prim faces x y rp = Inr (True, Some zi)"
  shows "intersect_loop prim faces x y (rp # post) zmaxs = Inr (Some (Max (set (zmaxs @ [zi]))))"
  using assms py_max_Max [of "zmaxs @ [zi]"] by simp

lemma try_intersect_z_success_has_z:
  "try_intersect_z prim faces x y rp = Inr (True, z) \<Longrightarrow> z \<noteq> None"
  unfolding try_intersect_z_def
  by (auto simp: Let_def split: if_splits sum.splits)

lemma intersect_loop_all_fail:
  assumes "\<forall>q \<in> set qs. \<exists>z. try_intersect_z prim faces x y q = Inr (False, z)"
  shows "intersect_loop prim faces x y qs zmaxs = Inr None"
  using intersect_loop_skip [OF assms, of "[]" zmaxs] by simp

lemma intersect_loop_None_only_if_all_fail:
  assumes "\<forall>q \<in> set qs. \<exists>s z. try_intersect_z prim faces x y q = Inr (s, z)"
    and "intersect_loop prim faces x y qs zmaxs = Inr None"
  shows "\<forall>q \<in> set qs. \<exists>z. try_intersect_z prim faces x y q = Inr (False, z)"
  using assms
proof (induction qs arbitrary: zmaxs)
  case Nil
  show ?case by simp
next
  case (Cons q qs)
  obtain s z where t: "try_intersect_z prim faces x y q = Inr (s, z)" using Cons.prems(1) by auto
  show ?case
  proof (cases s)
    case True
    have "z \<noteq> None" using t True try_intersect_z_success_has_z [of prim faces x y q z] by simp
    then obtain v where "z = Some v" by (cases z) auto
    then have "intersect_loop prim faces x y (q # qs) zmaxs = Inr (Some (Max (set (zmaxs @ [v]))))"
      using intersect_loop_success t True by simp
    then show ?thesis using Cons.prems(2) by simp
  next
    case False
    let ?z = "case z of None \<Rightarrow> zmaxs | Some v \<Rightarrow> zmaxs @ [v]"
    have "intersect_loop prim faces x y qs ?z = Inr None"
      using Cons.prems(2) t False by simp
    then have "\<forall>q \<in> set qs. \<exists>z. try_intersect_z prim faces x y q = Inr (False, z)"
      using Cons.IH Cons.prems(1) by simp
    then show ?thesis using t False by simp
  qed
qed



lemmas section_eval = try_intersect_z_def runs_def default_run_def Let_def
  is_valid_section_def is_full_length_def is_empty_section_def short_section_def invalid_section_def

section \<open>What \<open>intersect_z\<close> returns\<close>

text \<open>
  Claim C2, as amended. When none of the eight attempts raises, \<open>intersect_z\<close> returns
  \<open>None\<close> exactly when no attempt passes validation; Z bounds seen in rejected attempts do
  not change that. The claim as stated (the largest Z bound seen is returned when every
  attempt is rejected) fails: with \<open>partial_prim\<close> the three direct attempts are rejected
  for their length with the bound 5, the other five are rejected without a bound, and the
  result is \<open>None\<close>.
\<close>

theorem intersect_z_none_iff_no_validated_run:
  assumes "\<forall>q \<in> set (runs tool_radius). \<exists>s z. try_intersect_z prim faces x y q = Inr (s, z)"
  shows "intersect_z prim faces tool_radius x y = Inr None \<longleftrightarrow>
         (\<forall>q \<in> set (runs tool_radius). \<exists>z. try_intersect_z prim faces x y q = Inr (False, z))"
  unfolding intersect_z_def
  using intersect_loop_all_fail intersect_loop_None_only_if_all_fail [OF assms] by blast

theorem intersect_z_best_effort_counterexample:
  "map (try_intersect_z partial_prim [0] 0 0) (runs 1) =
     [Inr (False, Some 5), Inr (False, Some 5), Inr (False, Some 5), Inr (False, None),
      Inr (False, None), Inr (False, None), Inr (False, None), Inr (False, None)] \<and>
   intersect_z partial_prim [0] 1 0 0 = Inr None"
  by code_simp

theorem intersect_z_none_iff_no_validated_run_witness:
  "try_intersect_z partial_prim [0] 0 0 (hd (runs 1)) = Inr (False, Some 5) \<and>
   intersect_z partial_prim [0] 1 0 0 = Inr None"
proof -
  have h: "\<forall>q \<in> set (runs 1). \<exists>s z. try_intersect_z partial_prim [0] 0 0 q = Inr (s, z)"
    by (auto simp: section_eval partial_prim_def)
  have f: "\<forall>q \<in> set (runs 1). \<exists>z. try_intersect_z partial_prim [0] 0 0 q = Inr (False, z)"
    by (simp add: section_eval partial_prim_def)
  have "try_intersect_z partial_prim [0] 0 0 (hd (runs 1)) = Inr (False, Some 5)"
    by (simp add: section_eval partial_prim_def)
  then show ?thesis using f intersect_z_none_iff_no_validated_run [OF h] by simp
qed

section \<open>Exceptions of the section primitive\<close>




section \<open>Moves without an edge, segments without points\<close>

lemma project_points_appends:
  assumes "project_points obj knd zmin pts pr = Inr pr'"
  shows "\<exists>new. newcommandlist pr' = newcommandlist pr @ new \<and> length new = length pts"
  using assms
proof (induction pts arbitrary: pr)
  case Nil
  then show ?case by simp
next
  case (Cons pnt pts)
  let ?q = "if knd = IS_ON_PLANE then get_surface_z obj (zstate pr) (fst pnt) (fst (snd pnt))
            else Inr (Some (snd (snd pnt) + OpStockZMax obj), zstate pr)"
  obtain found st' where q: "?q = Inr (found, st')"
    using Cons.prems by (cases ?q) (auto split: if_splits)
  obtain c pr1 where step: "project_points obj knd zmin pts pr1 = Inr pr'"
    and n1: "newcommandlist pr1 = newcommandlist pr @ [c]"
    using Cons.prems q by (auto simp: Let_def split: if_splits)
  from Cons.IH [OF step] obtain new where "newcommandlist pr' = newcommandlist pr1 @ new" "length new = length pts"
    by blast
  then have "newcommandlist pr' = newcommandlist pr @ (c # new) \<and> length (c # new) = length (pnt # pts)"
    using n1 by simp
  then show ?case by blast
qed

lemma project_segments_appends:
  assumes "project_segments obj zmin segs pr = Inr pr'"
  shows "\<exists>new. newcommandlist pr' = newcommandlist pr @ new"
  using assms
proof (induction segs arbitrary: pr)
  case Nil
  then show ?case by simp
next
  case (Cons seg segs)
  show ?case
  proof (cases "kind seg = OTHER \<or> pointlist seg = []")
    case True
    then obtain pr1 where step: "project_segments obj zmin segs pr1 = Inr pr'"
      and n1: "newcommandlist pr1 = newcommandlist pr @ [command seg]"
      using Cons.prems by (auto simp: Let_def split: if_splits)
    from Cons.IH [OF step] n1 show ?thesis by auto
  next
    case False
    then obtain pr1 where pp: "project_points obj (kind seg) zmin (pointlist seg) pr = Inr pr1"
      and step: "project_segments obj zmin segs pr1 = Inr pr'"
      using Cons.prems by (auto simp: Let_def split: sum.splits)
    from project_points_appends [OF pp] Cons.IH [OF step] show ?thesis by auto
  qed
qed

text \<open>
  Claim C4, as amended. A move for which the kernel builds no edge yields no segment at all:
  the discretizer goes on as if the command were absent, except that the tracked position
  takes its explicit axes. A segment with an empty point list (every non-motion command,
  and a move whose edge is sampled to no point) is passed through unchanged by the
  projection, logged when it carries X, Y or Z and is not a non-motion command, and it
  stays in the output when the projection of the remaining segments returns. The claim
  as stated (an edgeless move gets an empty segment and is never dropped) fails: a
  \<open>G1\<close> to the position the tool is already at has no edge and is missing from the segments.
\<close>

theorem edgeless_move_dropped_empty_segment_passed_through:
  "(is_motion c \<longrightarrow> efc c loc = None \<longrightarrow>
      discretize_commands efc dsc (c # cs) loc sh ch sd cd =
      discretize_commands efc dsc cs (update_location loc c) sh ch sd cd) \<and>
   (pointlist seg = [] \<longrightarrow>
      project_segments obj zmin (seg # segs) pr =
      project_segments obj zmin segs
        (if kind seg = OTHER then pr\<lparr>newcommandlist := newcommandlist pr @ [command seg]\<rparr>
         else pr\<lparr>newcommandlist := newcommandlist pr @ [command seg],
                 currLocation := currLocation pr ++ Parameters (command seg),
                 warned := (if cmd_x (command seg) \<noteq> None \<or> cmd_y (command seg) \<noteq> None \<or>
                               cmd_z (command seg) \<noteq> None
                            then warned pr @ [command seg] else warned pr)\<rparr>)) \<and>
   (pointlist seg = [] \<longrightarrow> project_segments obj zmin (seg # segs) pr = Inr pr' \<longrightarrow>
      (\<exists>rest. newcommandlist pr' = newcommandlist pr @ command seg # rest))"
proof (intro conjI impI)
  assume "is_motion c" "efc c loc = None"
  then show "discretize_commands efc dsc (c # cs) loc sh ch sd cd =
      discretize_commands efc dsc cs (update_location loc c) sh ch sd cd"
    by (simp add: Let_def)
next
  assume e: "pointlist seg = []"
  then show "project_segments obj zmin (seg # segs) pr =
      project_segments obj zmin segs
        (if kind seg = OTHER then pr\<lparr>newcommandlist := newcommandlist pr @ [command seg]\<rparr>
         else pr\<lparr>newcommandlist := newcommandlist pr @ [command seg],
                 currLocation := currLocation pr ++ Parameters (command seg),
                 warned := (if cmd_x (command seg) \<noteq> None \<or> cmd_y (command seg) \<noteq> None \<or>
                               cmd_z (command seg) \<noteq> None
                            then warned pr @ [command seg] else warned pr)\<rparr>)"
    by (simp add: Let_def cmd_x_def cmd_y_def cmd_z_def)
next
  assume e: "pointlist seg = []" and r: "project_segments obj zmin (seg # segs) pr = Inr pr'"
  obtain pr1 where step: "project_segments obj zmin segs pr1 = Inr pr'"
    and n1: "newcommandlist pr1 = newcommandlist pr @ [command seg]"
    using e r by (auto simp: Let_def split: if_splits)
  from project_segments_appends [OF step] n1
  show "\<exists>rest. newcommandlist pr' = newcommandlist pr @ command seg # rest" by auto
qed

theorem edgeless_move_dropped_counterexample:
  "is_motion (G1 [(''X'', 0), (''Y'', 0), (''Z'', 25)]) \<and>
   line_edge (G1 [(''X'', 0), (''Y'', 0), (''Z'', 25)]) (0, 0, 25) = None \<and>
   map command (discretize_commands line_edge end_points
       [G1 [(''X'', 0), (''Y'', 0), (''Z'', 25)], G1 [(''X'', 4)]] (0, 0, 25) 25 30 1 (1 / 10)) =
     [G1 [(''X'', 4)]]"
  by (simp add: is_motion_def CmdMoveStraight_def CmdMoveArc_def CmdMoveRapid_def G1_def
      line_edge_def update_location_def Let_def)

theorem edgeless_move_dropped_empty_segment_passed_through_witness:
  "discretize_commands line_edge end_points [G1 [(''X'', 0), (''Y'', 0), (''Z'', 25)]] (0, 0, 25) 25 30 1 (1 / 10) = [] \<and>
   project_segments sample_obj 0
     [\<lparr>kind = IS_HIGH, command = G1 [(''Z'', 25)], pointlist = []\<rparr>] start_projection =
   Inr (start_projection\<lparr>newcommandlist := [G1 [(''Z'', 25)]],
          currLocation := [''X'' \<mapsto> 0, ''Y'' \<mapsto> 0, ''Z'' \<mapsto> 25],
          warned := [G1 [(''Z'', 25)]]\<rparr>)"
proof -
  let ?c = "G1 [(''X'', 0), (''Y'', 0), (''Z'', 25)]"
  let ?seg = "\<lparr>kind = IS_HIGH, command = G1 [(''Z'', 25)], pointlist = []\<rparr>"
  have m: "is_motion ?c"
    by (simp add: is_motion_def CmdMoveStraight_def CmdMoveArc_def CmdMoveRapid_def G1_def)
  have n: "line_edge ?c (0, 0, 25) = None"
    by (simp add: line_edge_def update_location_def G1_def)
  have p: "pointlist ?seg = []" by simp
  note t = edgeless_move_dropped_empty_segment_passed_through
    [of ?c line_edge "(0, 0, 25)" end_points "[]" 25 30 1 "1 / 10" ?seg sample_obj 0 "[]" start_projection]
  have a: "discretize_commands line_edge end_points [?c] (0, 0, 25) 25 30 1 (1 / 10) = []"
    using t m n by simp
  have b: "project_segments sample_obj 0 [?seg] start_projection =
     Inr (start_projection\<lparr>newcommandlist := [G1 [(''Z'', 25)]],
          currLocation := [''X'' \<mapsto> 0, ''Y'' \<mapsto> 0, ''Z'' \<mapsto> 25],
          warned := [G1 [(''Z'', 25)]]\<rparr>)"
    using t p by (simp add: start_projection_def cmd_x_def cmd_y_def cmd_z_def G1_def)
  show ?thesis using a b by simp
qed

section \<open>The feed of a move\<close>

text \<open>
  Away from the tolerance the caps hold: when both \<open>|dz|\<close> and the planar length of the move
  are above the tolerance, the horizontal component of the feed is at most the horizontal
  feed, and on a descent the feed is the smaller of the two candidates and its vertical
  component is at most the vertical feed.
\<close>

lemma feed_caps_on_clear_diagonal:
  fixes p0 p1 :: point
  defines "dx \<equiv> fst p1 - fst p0" and "dy \<equiv> fst (snd p1) - fst (snd p0)" and "dz \<equiv> snd (snd p1) - snd (snd p0)"
  defines "dxy \<equiv> sqrt (dx * dx + dy * dy)" and "dst \<equiv> sqrt (dx * dx + dy * dy + dz * dz)"
  assumes tz: "Tolerance < \<bar>dz\<bar>" and txy: "Tolerance < dxy" and h0: "0 \<le> h" and v0: "0 \<le> v"
  shows "feed_components p0 p1 h v =
           ((if dz > 0 then h * dst / dxy else min (h * dst / dxy) (v * dst / \<bar>dz\<bar>)),
            (if dz > 0 then h * dst / dxy else min (h * dst / dxy) (v * dst / \<bar>dz\<bar>)) * dxy / dst,
            (if dz > 0 then h * dst / dxy else min (h * dst / dxy) (v * dst / \<bar>dz\<bar>)) * \<bar>dz\<bar> / dst)"
    and "fst (snd (feed_components p0 p1 h v)) \<le> h"
    and "dz < 0 \<Longrightarrow> snd (snd (feed_components p0 p1 h v)) \<le> v"
proof -
  have tol: "0 < Tolerance" by (simp add: Tolerance_def)
  have xy_pos: "0 < dxy" using txy tol by simp
  have "dx * dx + dy * dy \<le> dx * dx + dy * dy + dz * dz" by simp
  then have "dxy \<le> dst" unfolding dxy_def dst_def by (rule real_sqrt_le_mono)
  then have d_pos: "0 < dst" and d_tol: "Tolerance < dst" using xy_pos txy by simp_all
  have z_pos: "0 < \<bar>dz\<bar>" using tz tol by simp
  let ?F = "if dz > 0 then h * dst / dxy else min (h * dst / dxy) (v * dst / \<bar>dz\<bar>)"
  have r1: "\<not> isRoughly dst 0.0" using d_tol d_pos by (simp add: isRoughly_def isRoughlyWithin_def)
  have r2: "\<not> isRoughly dxy 0.0" using txy xy_pos by (simp add: isRoughly_def isRoughlyWithin_def)
  have r3: "\<not> isRoughly dz 0.0" using tz by (simp add: isRoughly_def isRoughlyWithin_def)
  show eq: "feed_components p0 p1 h v = (?F, ?F * dxy / dst, ?F * \<bar>dz\<bar> / dst)"
    unfolding feed_components_def Let_def
    unfolding dx_def [symmetric] dy_def [symmetric] dz_def [symmetric]
    unfolding dxy_def [symmetric] dst_def [symmetric]
    using r1 r2 r3 d_pos by simp
  have Fh: "?F \<le> h * dst / dxy" by simp
  have "?F * dxy / dst \<le> (h * dst / dxy) * dxy / dst"
    using Fh xy_pos d_pos by (intro divide_right_mono mult_right_mono) simp_all
  also have "(h * dst / dxy) * dxy / dst = h" using xy_pos d_pos by simp
  finally show "fst (snd (feed_components p0 p1 h v)) \<le> h" by (simp add: eq)
  show "snd (snd (feed_components p0 p1 h v)) \<le> v" if neg: "dz < 0"
  proof -
    have Fv: "?F \<le> v * dst / \<bar>dz\<bar>" using neg by simp
    have "?F * \<bar>dz\<bar> / dst \<le> (v * dst / \<bar>dz\<bar>) * \<bar>dz\<bar> / dst"
      using Fv z_pos d_pos by (intro divide_right_mono mult_right_mono) simp_all
    also have "(v * dst / \<bar>dz\<bar>) * \<bar>dz\<bar> / dst = v" using z_pos d_pos by simp
    finally show ?thesis by (simp add: eq)
  qed
qed

text \<open>
  Claim C5 states what the docstring and the assertions of \<open>interpolate_feedrate\<close> state,
  and the code departs from it on a short descent. From the origin to
  \<open>(1.034e-6, 0, -9.87e-8)\<close>, with the horizontal feed 1000 and the vertical feed 50, the
  move has a length above the tolerance and a planar length above the tolerance, while its
  \<open>dz\<close> is within the tolerance of zero: the move is taken for a horizontal one and gets the
  feed 1000, whose vertical component is above 95.
\<close>

theorem vertical_feed_cap_exceeded_on_short_descent:
  "feed_components (0, 0, 0) (1034 / 10 ^ 9, 0, - (987 / 10 ^ 10)) 1000 50 =
     (1000, 10340000 / 10387, 987000 / 10387) \<and>
   interpolate_feedrate (0, 0, 0) (1034 / 10 ^ 9, 0, - (987 / 10 ^ 10)) 1000 50 = 1000 \<and>
   (50 + 1 / 10 ^ 6 :: real) < 987000 / 10387"
proof -
  have dxy: "sqrt ((1034 / 10 ^ 9 - 0) * (1034 / 10 ^ 9 - 0) + (0 - 0) * (0 - 0)) = (1034 / 10 ^ 9 :: real)"
    by (rule real_sqrt_unique) (simp_all add: power2_eq_square)
  have d: "sqrt ((1034 / 10 ^ 9 - 0) * (1034 / 10 ^ 9 - 0) + (0 - 0) * (0 - 0) +
                 (- (987 / 10 ^ 10) - 0) * (- (987 / 10 ^ 10) - 0)) = (10387 / 10 ^ 10 :: real)"
    by (rule real_sqrt_unique) (simp_all add: power2_eq_square)
  have f: "feed_components (0, 0, 0) (1034 / 10 ^ 9, 0, - (987 / 10 ^ 10)) 1000 50 =
     (1000, 10340000 / 10387, 987000 / 10387)"
    unfolding feed_components_def Let_def fst_conv snd_conv dxy d
    by (simp add: isRoughly_def isRoughlyWithin_def Tolerance_def)
  show ?thesis using f by (simp add: interpolate_feedrate_def)
qed

section \<open>The stepdown loop\<close>


lemma isLower_None [simp]: "isLower None l = False"
  by (simp add: isLower_def)










section \<open>The safety ceiling of the projection\<close>

text \<open>
  Claim C7. Whenever the projection of the points of a segment returns, it has appended one
  \<open>G1\<close> per point, at the X and Y of the point and at the Z
  \<open>min (h + (point.z - z_original_min)) SafeHeight\<close> for the height \<open>h\<close> resolved for it, so
  that no emitted Z exceeds \<open>SafeHeight\<close>.
\<close>

theorem projected_z_never_exceeds_safe_height:
  assumes "project_points obj knd zmin pts pr = Inr pr'"
  shows "\<exists>new. newcommandlist pr' = newcommandlist pr @ new \<and>
           list_all2 (\<lambda>pnt c. \<exists>h. c = G1 [(''X'', fst pnt), (''Y'', fst (snd pnt)),
                                             (''Z'', min (h + (snd (snd pnt) - zmin)) (SafeHeight obj))]) pts new \<and>
           (\<forall>c \<in> set new. \<exists>z. cmd_z c = Some z \<and> z \<le> SafeHeight obj)"
  using assms
proof (induction pts arbitrary: pr)
  case Nil
  then show ?case by simp
next
  case (Cons pnt pts)
  let ?q = "if knd = IS_ON_PLANE then get_surface_z obj (zstate pr) (fst pnt) (fst (snd pnt))
            else Inr (Some (snd (snd pnt) + OpStockZMax obj), zstate pr)"
  obtain found st' where q: "?q = Inr (found, st')"
    using Cons.prems by (cases ?q) (auto split: if_splits)
  define h where "h = (case found of None \<Rightarrow> SafeHeight obj | Some v \<Rightarrow> v)"
  define c where "c = G1 [(''X'', fst pnt), (''Y'', fst (snd pnt)),
                          (''Z'', min (h + (snd (snd pnt) - zmin)) (SafeHeight obj))]"
  define pr1 where "pr1 = pr\<lparr>zstate := st', newcommandlist := newcommandlist pr @ [c],
                              currLocation := currLocation pr ++ Parameters c\<rparr>"
  have clamp: "(if h + (snd (snd pnt) - zmin) > SafeHeight obj then SafeHeight obj
                else h + (snd (snd pnt) - zmin)) = min (h + (snd (snd pnt) - zmin)) (SafeHeight obj)"
    by (simp add: min_def)
  have step: "project_points obj knd zmin pts pr1 = Inr pr'"
    using Cons.prems q clamp unfolding pr1_def c_def h_def by (simp add: Let_def split: if_splits)
  from Cons.IH [OF step] obtain new where
    n: "newcommandlist pr' = newcommandlist pr1 @ new"
    and l: "list_all2 (\<lambda>pnt c. \<exists>h. c = G1 [(''X'', fst pnt), (''Y'', fst (snd pnt)),
                                           (''Z'', min (h + (snd (snd pnt) - zmin)) (SafeHeight obj))]) pts new"
    and b: "\<forall>c \<in> set new. \<exists>z. cmd_z c = Some z \<and> z \<le> SafeHeight obj"
    by blast
  have "newcommandlist pr' = newcommandlist pr @ (c # new)"
    using n by (simp add: pr1_def)
  moreover have "list_all2 (\<lambda>pnt c. \<exists>h. c = G1 [(''X'', fst pnt), (''Y'', fst (snd pnt)),
                                           (''Z'', min (h + (snd (snd pnt) - zmin)) (SafeHeight obj))]) (pnt # pts) (c # new)"
    using l c_def by auto
  moreover have "\<forall>c' \<in> set (c # new). \<exists>z. cmd_z c' = Some z \<and> z \<le> SafeHeight obj"
    using b by (simp add: c_def cmd_z_def G1_def)
  ultimately show ?case by blast
qed

theorem projected_z_never_exceeds_safe_height_witness:
  "project_points sample_obj IS_HIGH 0 [(1, 2, 3), (4, 5, 30)] start_projection =
     Inr (start_projection\<lparr>
            newcommandlist := [G1 [(''X'', 1), (''Y'', 2), (''Z'', 16)], G1 [(''X'', 4), (''Y'', 5), (''Z'', 25)]],
            currLocation := [''Z'' \<mapsto> 25, ''Y'' \<mapsto> 5, ''X'' \<mapsto> 4]\<rparr>) \<and>
   (\<exists>new. [G1 [(''X'', 1), (''Y'', 2), (''Z'', 16)], G1 [(''X'', 4), (''Y'', 5), (''Z'', 25)]] = new \<and>
      (\<forall>c \<in> set new. \<exists>z. cmd_z c = Some z \<and> z \<le> 25))"
proof -
  have h: "project_points sample_obj IS_HIGH 0 [(1, 2, 3), (4, 5, 30)] start_projection =
     Inr (start_projection\<lparr>
            newcommandlist := [G1 [(''X'', 1), (''Y'', 2), (''Z'', 16)], G1 [(''X'', 4), (''Y'', 5), (''Z'', 25)]],
            currLocation := [''Z'' \<mapsto> 25, ''Y'' \<mapsto> 5, ''X'' \<mapsto> 4]\<rparr>)"
    by (simp add: sample_obj_def start_projection_def G1_def Let_def)
  show ?thesis
    using h projected_z_never_exceeds_safe_height [OF h]
    by (simp add: start_projection_def sample_obj_def)
qed

section \<open>Classification of the commands\<close>

lemma discretize_commands_non_motion:
  "\<not> is_motion c \<Longrightarrow>
   discretize_commands efc dsc (c # cs) loc sh ch sd cd =
     \<lparr>kind = OTHER, command = c, pointlist = []\<rparr> #
     discretize_commands efc dsc cs (update_location loc c) sh ch sd cd"
  by (simp add: Let_def)

lemma discretize_commands_motion:
  "is_motion c \<Longrightarrow> efc c loc = Some e \<Longrightarrow>
   discretize_commands efc dsc (c # cs) loc sh ch sd cd =
     \<lparr>kind = (if is_on_plane c loc then IS_ON_PLANE else IS_HIGH), command = c,
      pointlist = (if Name c \<in> set CmdMoveArc then dsc e (Deflection cd) else dsc e (Distance sd))\<rparr> #
     discretize_commands efc dsc cs (update_location loc c) sh ch sd cd"
  by (simp add: Let_def)

lemma is_on_plane_cases:
  "is_on_plane c loc =
     (case Parameters c ''Z'' of
        Some z \<Rightarrow> if z = 0 then \<bar>snd (snd loc)\<bar> \<le> Tolerance else \<bar>z\<bar> \<le> Tolerance
      | None \<Rightarrow> \<bar>snd (snd loc)\<bar> \<le> Tolerance)"
  by (auto simp: is_on_plane_def isRoughly_def isRoughlyWithin_def split: option.splits)

text \<open>
  Claim C8 holds except for its last clause, where the code departs from it: the test
  \<open>'Z' in cmd.Parameters and cmd.Z\<close> is false for an explicit \<open>Z\<close> equal to \<open>0.0\<close>, so such a
  move is classified by the Z of the tracked position. A \<open>G1\<close> with \<open>Z = 0.0\<close> met at the
  tracked height 25 is not on the plane for \<open>is_on_plane\<close>, and its segment is \<open>IS_HIGH\<close>.
\<close>

theorem explicit_zero_z_classified_by_tracked_position:
  "is_on_plane (G1 [(''X'', 1), (''Z'', 0)]) (0, 0, 25) = False \<and>
   discretize_commands line_edge end_points [G1 [(''X'', 1), (''Z'', 0)]] (0, 0, 25) 25 30 1 (1 / 10) =
     [\<lparr>kind = IS_HIGH, command = G1 [(''X'', 1), (''Z'', 0)], pointlist = [(0, 0, 25), (1, 0, 0)]\<rparr>]"
  by (simp add: is_on_plane_def isRoughly_def isRoughlyWithin_def Tolerance_def G1_def Let_def
      is_motion_def CmdMoveStraight_def CmdMoveArc_def CmdMoveRapid_def
      line_edge_def update_location_def end_points_def)

section \<open>Failed preconditions of \<open>opExecute\<close>\<close>

text \<open>
  Claim C9, as amended. With a tool shape other than \<open>endmill\<close>, \<open>opExecute\<close> returns with
  the state untouched. With no faces, or with faces but no usable base path, it returns
  after the hash test: the cache is the one left by that test, cleared when the hash changed
  and invalidation is not blocked and untouched otherwise, and nothing is inserted; the
  stored hash is the current one; the output path is the placed base path for no faces and
  the empty path for no usable base path. The claim as stated (no cache clear on an aborted
  run, prior output kept or replaced by the original path) fails: without faces and with a
  changed hash the cached sample is gone, and without a usable base path the output path
  is emptied.
\<close>

theorem precondition_failures_abort:
  "(ShapeID obj \<noteq> ''endmill'' \<longrightarrow> opExecute obj st = Some (Inr st)) \<and>
   (ShapeID obj = ''endmill'' \<longrightarrow> collected_faces obj = [] \<longrightarrow>
      opExecute obj st =
        (case getPathWithPlacement obj (BasePath obj) of
           Inl e \<Rightarrow> Some (Inl e)
         | Inr p \<Rightarrow> Some (Inr ((after_hash_check obj st)\<lparr>Path := p\<rparr>)))) \<and>
   (ShapeID obj = ''endmill'' \<longrightarrow> collected_faces obj \<noteq> [] \<longrightarrow> base_commands (BasePath obj) = None \<longrightarrow>
      opExecute obj st = Some (Inr ((after_hash_check obj st)\<lparr>Path := []\<rparr>))) \<and>
   PointCache (after_hash_check obj st) =
     (if state_hash obj \<noteq> CacheStateHash st \<and> \<not> BlockCacheInvalidation obj then Dict None
      else PointCache st) \<and>
   runtime_quadtree (after_hash_check obj st) =
     (if state_hash obj \<noteq> CacheStateHash st \<and> \<not> BlockCacheInvalidation obj then None
      else runtime_quadtree st)"
  by (auto simp: opExecute_def after_hash_check_def clear_cache_def Let_def split: sum.splits)

theorem precondition_failures_abort_counterexample:
  "opExecute (sample_obj\<lparr>collected_faces := []\<rparr>) cached_zface =
     Some (Inr \<lparr>PointCache = Dict None, runtime_quadtree = None, CacheStateHash = ''new'',
                Path = square_path, commandlist = []\<rparr>) \<and>
   PointCache cached_zface = Dict (Some [(1, 1, 5)]) \<and>
   opExecute (sample_obj\<lparr>BasePath := None\<rparr>) cached_zface =
     Some (Inr \<lparr>PointCache = Dict None, runtime_quadtree = None, CacheStateHash = ''new'',
                Path = [], commandlist = []\<rparr>) \<and>
   Path cached_zface = [G1 [(''X'', 1), (''Y'', 1), (''Z'', 5)]]"
  by (simp add: opExecute_def sample_obj_def cached_zface_def clear_cache_def Let_def placed_path_def
      base_commands_def)

theorem precondition_failures_abort_witness:
  "opExecute (sample_obj\<lparr>ShapeID := ''ballend''\<rparr>) cached_zface = Some (Inr cached_zface) \<and>
   opExecute (sample_obj\<lparr>collected_faces := [], BlockCacheInvalidation := True\<rparr>) cached_zface =
     Some (Inr (cached_zface\<lparr>CacheStateHash := ''new'', Path := square_path\<rparr>)) \<and>
   opExecute (sample_obj\<lparr>BasePath := None\<rparr>) cached_zface =
     Some (Inr (cached_zface\<lparr>PointCache := Dict None, CacheStateHash := ''new'', Path := []\<rparr>))"
proof -
  have a: "opExecute (sample_obj\<lparr>ShapeID := ''ballend''\<rparr>) cached_zface = Some (Inr cached_zface)"
    using precondition_failures_abort [of "sample_obj\<lparr>ShapeID := ''ballend''\<rparr>" cached_zface]
    by (simp add: sample_obj_def)
  have b: "opExecute (sample_obj\<lparr>collected_faces := [], BlockCacheInvalidation := True\<rparr>) cached_zface =
     Some (Inr (cached_zface\<lparr>CacheStateHash := ''new'', Path := square_path\<rparr>))"
    using precondition_failures_abort [of "sample_obj\<lparr>collected_faces := [], BlockCacheInvalidation := True\<rparr>" cached_zface]
    by (simp add: sample_obj_def after_hash_check_def clear_cache_def placed_path_def cached_zface_def)
  have c: "opExecute (sample_obj\<lparr>BasePath := None\<rparr>) cached_zface =
     Some (Inr (cached_zface\<lparr>PointCache := Dict None, CacheStateHash := ''new'', Path := []\<rparr>))"
    using precondition_failures_abort [of "sample_obj\<lparr>BasePath := None\<rparr>" cached_zface]
    by (simp add: sample_obj_def after_hash_check_def clear_cache_def base_commands_def cached_zface_def)
  show ?thesis using a b c by simp
qed

section \<open>The value returned at the first validated attempt\<close>

text \<open>
  Claim C10. If the attempts before \<open>rp\<close> are rejected and \<open>rp\<close> is validated with the bound
  \<open>zi\<close>, \<open>intersect_z\<close> returns the maximum of the non-null bounds of all attempts up to and
  including \<open>rp\<close>, rejected ones included. For \<open>overhang_prim\<close> the first three attempts are
  rejected with the bound 5, the fourth is validated with the bound 2, and 5 is returned.
\<close>

theorem intersect_z_success_returns_max_of_all_attempts:
  assumes "runs tool_radius = pre @ rp # post"
    and "\<forall>q \<in> set pre. \<exists>z. try_intersect_z prim faces x y q = Inr (False, z)"
    and "try_intersect_z prim faces x y rp = Inr (True, Some zi)"
  shows "intersect_z prim faces tool_radius x y =
           Inr (Some (Max (set (observed prim faces x y (pre @ [rp]))))) \<and>
         map (try_intersect_z overhang_prim [0] 0 0) (take 4 (runs 1)) =
           [Inr (False, Some 5), Inr (False, Some 5), Inr (False, Some 5), Inr (True, Some 2)] \<and>
         intersect_z overhang_prim [0] 1 0 0 = Inr (Some 5)"
proof -
  have "intersect_z prim faces tool_radius x y =
          Inr (Some (Max (set (observed prim faces x y pre @ [zi]))))"
    unfolding intersect_z_def assms(1)
    using intersect_loop_skip [OF assms(2), of "rp # post" "[]"] intersect_loop_success [OF assms(3)]
    by simp
  moreover have "observed prim faces x y (pre @ [rp]) = observed prim faces x y pre @ [zi]"
    using assms(3) by (simp add: observed_append)
  moreover have "map (try_intersect_z overhang_prim [0] 0 0) (take 4 (runs 1)) =
           [Inr (False, Some 5), Inr (False, Some 5), Inr (False, Some 5), Inr (True, Some 2)]"
    by code_simp
  moreover have "intersect_z overhang_prim [0] 1 0 0 = Inr (Some 5)"
    by code_simp
  ultimately show ?thesis by simp
qed

theorem intersect_z_success_returns_max_of_all_attempts_witness:
  "runs 1 = take 3 (runs 1) @ (runs 1 ! 3) # drop 4 (runs 1) \<and>
   map (try_intersect_z overhang_prim [0] 0 0) (take 3 (runs 1)) =
     [Inr (False, Some 5), Inr (False, Some 5), Inr (False, Some 5)] \<and>
   try_intersect_z overhang_prim [0] 0 0 (runs 1 ! 3) = Inr (True, Some 2) \<and>
   intersect_z overhang_prim [0] 1 0 0 =
     Inr (Some (Max (set (observed overhang_prim [0] 0 0 (take 3 (runs 1) @ [runs 1 ! 3])))))"
proof -
  have h1: "runs 1 = take 3 (runs 1) @ (runs 1 ! 3) # drop 4 (runs 1)"
    by (simp add: runs_def Let_def)
  have h2: "\<forall>q \<in> set (take 3 (runs 1)). \<exists>z. try_intersect_z overhang_prim [0] 0 0 q = Inr (False, z)"
    by (simp add: section_eval overhang_prim_def)
  have h3: "try_intersect_z overhang_prim [0] 0 0 (runs 1 ! 3) = Inr (True, Some 2)"
    by (simp add: section_eval overhang_prim_def)
  have h4: "map (try_intersect_z overhang_prim [0] 0 0) (take 3 (runs 1)) =
     [Inr (False, Some 5), Inr (False, Some 5), Inr (False, Some 5)]"
    by (simp add: section_eval overhang_prim_def)
  show ?thesis
    using h1 h3 h4 intersect_z_success_returns_max_of_all_attempts [OF h1 h2 h3] by simp
qed

end
